theory Spec2Isabelle
  imports Complex_Main
begin

section \<open>Strings\<close>

text \<open>
  Python strings are sequences of code points. A \<^typ>\<open>char\<close> is read as the code point
  of the same number, so the model covers the strings over code points 0 to 255 (ASCII
  and Latin-1). The character classes below are Python's on that range: \<open>str.isspace\<close>
  (also the regular expression class \<open>\s\<close>), the decimal digits (\<open>\d\<close>),
  \<open>str.isdigit\<close> (which also accepts the superscripts 1, 2 and 3), and the word
  characters (\<open>\w\<close>: alphanumeric or underscore).
\<close>

definition cp :: "char \<Rightarrow> int" where
  "cp c = of_char c"

definition py_isspace :: "char \<Rightarrow> bool" where
  "py_isspace c = (let n = cp c in (9 \<le> n \<and> n \<le> 13) \<or> (28 \<le> n \<and> n \<le> 32) \<or> n = 133 \<or> n = 160)"

definition is_decimal :: "char \<Rightarrow> bool" where
  "is_decimal c = (let n = cp c in 48 \<le> n \<and> n \<le> 57)"

definition py_isdigit :: "char \<Rightarrow> bool" where
  "py_isdigit c = (let n = cp c in (48 \<le> n \<and> n \<le> 57) \<or> n = 178 \<or> n = 179 \<or> n = 185)"

definition py_isalpha :: "char \<Rightarrow> bool" where
  "py_isalpha c = (let n = cp c in
     (65 \<le> n \<and> n \<le> 90) \<or> (97 \<le> n \<and> n \<le> 122) \<or> n = 170 \<or> n = 181 \<or> n = 186 \<or>
     (192 \<le> n \<and> n \<le> 214) \<or> (216 \<le> n \<and> n \<le> 246) \<or> (248 \<le> n \<and> n \<le> 255))"

definition is_word_char :: "char \<Rightarrow> bool" where
  "is_word_char c = (let n = cp c in
     py_isalpha c \<or> py_isdigit c \<or> (188 \<le> n \<and> n \<le> 190) \<or> n = 95)"

text \<open>\<open>str.lower\<close> on the same range: the letters A to Z and the accented capitals move
  up by 32; the multiplication sign (215) stays.\<close>

definition py_lower_char :: "char \<Rightarrow> char" where
  "py_lower_char c = (let n = cp c in
     if (65 \<le> n \<and> n \<le> 90) \<or> (192 \<le> n \<and> n \<le> 222 \<and> n \<noteq> 215) then char_of (n + 32) else c)"

definition py_lower :: "string \<Rightarrow> string" where
  "py_lower s = map py_lower_char s"

text \<open>\<open>s.strip()\<close>: leading and trailing whitespace removed.\<close>

definition py_strip :: "string \<Rightarrow> string" where
  "py_strip s = rev (dropWhile py_isspace (rev (dropWhile py_isspace s)))"

text \<open>\<open>s.startswith(p)\<close>, \<open>s.endswith(p)\<close> and the substring test \<open>p in s\<close>.\<close>

fun startswith :: "string \<Rightarrow> string \<Rightarrow> bool" where
  "startswith s [] = True"
| "startswith [] (p # ps) = False"
| "startswith (x # xs) (p # ps) = (x = p \<and> startswith xs ps)"

definition endswith :: "string \<Rightarrow> string \<Rightarrow> bool" where
  "endswith s p = startswith (rev s) (rev p)"

fun str_in :: "string \<Rightarrow> string \<Rightarrow> bool" where
  "str_in p [] = (p = [])"
| "str_in p (x # xs) = (startswith (x # xs) p \<or> str_in p xs)"

text \<open>\<open>int(s)\<close> on a string of decimal digits, \<open>ValueError\<close> as \<open>None\<close>. The callers
  pass only what \<open>\d\<close> matched; the signs, underscores and blanks that \<open>int\<close> would
  also accept do not occur there and are taken as errors.\<close>

definition py_int :: "string \<Rightarrow> int option" where
  "py_int s = (if s \<noteq> [] \<and> list_all is_decimal s
               then Some (foldl (\<lambda>acc c. 10 * acc + (cp c - 48)) 0 s) else None)"

text \<open>\<open>str(n)\<close> for an integer.\<close>

function dec_digits :: "int \<Rightarrow> string" where
  "dec_digits n = (if n < 10 then [char_of (48 + n)]
                   else dec_digits (n div 10) @ [char_of (48 + n mod 10)])"
  by pat_completeness auto
termination
  by (relation "measure nat") auto

declare dec_digits.simps [simp del]

definition py_str_int :: "int \<Rightarrow> string" where
  "py_str_int n = (if n < 0 then CHR ''-'' # dec_digits (- n) else dec_digits n)"

text \<open>\<open>float(s)\<close> on a string \<open>ddd.ddd\<close>, as an exact rational. The only use compares
  the value with 118.0, 137.0, 0 and 7777; a decimal with at most three places lies on
  the same side of these numbers as the double nearest to it.\<close>

definition py_float :: "string \<Rightarrow> rat option" where
  "py_float s =
     (let ip = takeWhile (\<lambda>c. c \<noteq> CHR ''.'') s;
          fp = drop (Suc (length ip)) s
      in case (py_int ip, py_int fp) of
           (Some a, Some b) \<Rightarrow>
             if length ip < length s then Some (of_int a + of_int b / of_int (10 ^ length fp))
             else None
         | _ \<Rightarrow> None)"

section \<open>Regular expressions\<close>

text \<open>
  The fragment of Python's \<open>re\<close> that the patterns of the validator use: a pattern is a
  sequence of atoms; an atom is one character of a class, a class repeated between a
  lower and an optional upper bound (greedy or lazy), an ordered choice between
  literal alternatives, or the word boundary \<open>\b\<close>. Matching backtracks in Python's
  order: a greedy repetition tries the longest run first, a lazy one the shortest, a choice
  its alternatives from left to right. A match is reported as the number of characters
  each atom consumed, which also gives the text of a group.
\<close>

datatype cls = In "char list" | NotIn "char list" | Digit | Space | Word

fun cls_has :: "cls \<Rightarrow> char \<Rightarrow> bool" where
  "cls_has (In cs) c = (c \<in> set cs)"
| "cls_has (NotIn cs) c = (c \<notin> set cs)"
| "cls_has Digit c = is_decimal c"
| "cls_has Space c = py_isspace c"
| "cls_has Word c = is_word_char c"

datatype atom = One cls | Rep cls nat "nat option" bool | Alt "cls list list" | WordB

fun first_some :: "('a \<Rightarrow> 'b option) \<Rightarrow> 'a list \<Rightarrow> 'b option" where
  "first_some f [] = None"
| "first_some f (x # xs) = (case f x of Some y \<Rightarrow> Some y | None \<Rightarrow> first_some f xs)"

fun match_seq :: "cls list \<Rightarrow> string \<Rightarrow> bool" where
  "match_seq [] s = True"
| "match_seq (c # cs) [] = False"
| "match_seq (c # cs) (x # xs) = (cls_has c x \<and> match_seq cs xs)"

text \<open>The character before the position reached after \<open>k\<close> characters of \<open>s\<close>.\<close>

definition prev_at :: "char option \<Rightarrow> string \<Rightarrow> nat \<Rightarrow> char option" where
  "prev_at prev s k = (if k = 0 \<or> length s < k then prev else Some (s ! (k - 1)))"

definition is_word :: "char option \<Rightarrow> bool" where
  "is_word p = (case p of None \<Rightarrow> False | Some c \<Rightarrow> is_word_char c)"

fun rx_match :: "atom list \<Rightarrow> char option \<Rightarrow> string \<Rightarrow> nat list option" where
  "rx_match [] prev s = Some []"
| "rx_match (One c # as) prev s =
     (case s of [] \<Rightarrow> None
      | x # xs \<Rightarrow> if cls_has c x then map_option (Cons 1) (rx_match as (Some x) xs) else None)"
| "rx_match (Rep c lo hi greedy # as) prev s =
     (let n = length (takeWhile (cls_has c) s);
          m = (case hi of None \<Rightarrow> n | Some h \<Rightarrow> min n h);
          ks = (if greedy then rev [lo..<Suc m] else [lo..<Suc m])
      in first_some (\<lambda>k. map_option (Cons k) (rx_match as (prev_at prev s k) (drop k s))) ks)"
| "rx_match (Alt alts # as) prev s =
     first_some (\<lambda>a. if match_seq a s
                      then map_option (Cons (length a))
                             (rx_match as (prev_at prev s (length a)) (drop (length a) s))
                      else None) alts"
| "rx_match (WordB # as) prev s =
     (if is_word prev \<noteq> is_word (case s of [] \<Rightarrow> None | x # xs \<Rightarrow> Some x)
      then map_option (Cons 0) (rx_match as prev s) else None)"

text \<open>\<open>re.search\<close>: is there a match at some position, scanning from the left.\<close>

fun rx_search :: "atom list \<Rightarrow> char option \<Rightarrow> string \<Rightarrow> bool" where
  "rx_search pat prev [] = (rx_match pat prev [] \<noteq> None)"
| "rx_search pat prev (x # xs) =
     (rx_match pat prev (x # xs) \<noteq> None \<or> rx_search pat (Some x) xs)"

definition re_search :: "atom list \<Rightarrow> string \<Rightarrow> bool" where
  "re_search pat s = rx_search pat None s"

text \<open>
  \<open>re.sub\<close> and \<open>re.findall\<close> take the leftmost match, then go on behind it. The scan
  walks the string; \<open>skip\<close> counts the characters still inside the last match. No
  pattern of the validator matches the empty string; at an empty match the replacement is
  put in and the scan moves on by one character.
\<close>

fun rx_sub :: "atom list \<Rightarrow> string \<Rightarrow> char option \<Rightarrow> string \<Rightarrow> nat \<Rightarrow> string" where
  "rx_sub pat repl prev [] skip =
     (if skip = 0 \<and> rx_match pat prev [] \<noteq> None then repl else [])"
| "rx_sub pat repl prev (x # xs) skip =
     (if 0 < skip then rx_sub pat repl (Some x) xs (skip - 1)
      else case rx_match pat prev (x # xs) of
             None \<Rightarrow> x # rx_sub pat repl (Some x) xs 0
           | Some ls \<Rightarrow>
               if sum_list ls = 0 then repl @ x # rx_sub pat repl (Some x) xs 0
               else repl @ rx_sub pat repl (Some x) xs (sum_list ls - 1))"

definition re_sub :: "atom list \<Rightarrow> string \<Rightarrow> string \<Rightarrow> string" where
  "re_sub pat repl s = rx_sub pat repl None s 0"

text \<open>Every match, as the text from its start and the lengths its atoms consumed.\<close>

fun rx_finditer :: "atom list \<Rightarrow> char option \<Rightarrow> string \<Rightarrow> nat \<Rightarrow> (string \<times> nat list) list" where
  "rx_finditer pat prev [] skip =
     (if skip = 0 then (case rx_match pat prev [] of None \<Rightarrow> [] | Some ls \<Rightarrow> [([], ls)])
      else [])"
| "rx_finditer pat prev (x # xs) skip =
     (if 0 < skip then rx_finditer pat (Some x) xs (skip - 1)
      else case rx_match pat prev (x # xs) of
             None \<Rightarrow> rx_finditer pat (Some x) xs 0
           | Some ls \<Rightarrow> (x # xs, ls) # rx_finditer pat (Some x) xs (sum_list ls - 1))"

text \<open>The text that the atoms \<open>i\<close> to \<open>j - 1\<close> of a match consumed (a group).\<close>

definition group_text :: "nat \<Rightarrow> nat \<Rightarrow> string \<times> nat list \<Rightarrow> string" where
  "group_text i j m =
     (case m of (s, ls) \<Rightarrow> take (sum_list (take (j - i) (drop i ls))) (drop (sum_list (take i ls)) s))"

text \<open>\<open>re.findall\<close> for a pattern whose one group spans the atoms \<open>i\<close> to \<open>j - 1\<close>.\<close>

definition re_findall :: "atom list \<Rightarrow> nat \<Rightarrow> nat \<Rightarrow> string \<Rightarrow> string list" where
  "re_findall pat i j s = map (group_text i j) (rx_finditer pat None s 0)"

text \<open>A literal under \<open>re.IGNORECASE\<close>: an ASCII letter stands for both of its cases.\<close>

definition ci :: "char \<Rightarrow> cls" where
  "ci x = (let n = cp x in
     if 65 \<le> n \<and> n \<le> 90 then In [x, char_of (n + 32)]
     else if 97 \<le> n \<and> n \<le> 122 then In [x, char_of (n - 32)]
     else In [x])"

definition lit :: "string \<Rightarrow> atom list" where
  "lit s = map (\<lambda>x. One (ci x)) s"

definition dot :: cls where
  "dot = NotIn [CHR 0x0A]"

section \<open>Response validation (validation.py)\<close>

record ValidationResult =
  valid :: bool
  cleaned_response :: string
  issues :: "string list"
  original_response :: string
  warnings :: "string list"

definition lits :: "string \<Rightarrow> cls list" where
  "lits s = map ci s"

text \<open>The tables of patterns, each with its description, in the order of the source.
  All of them are searched with \<open>re.IGNORECASE\<close>.\<close>

definition SUSPICIOUS_PATTERNS :: "(atom list \<times> string) list" where
  "SUSPICIOUS_PATTERNS =
    [(lit ''<|'' @ [Rep dot 0 None False] @ lit ''|>'', ''LLM control token''),
     (lit ''[INST]'', ''Instruction marker''),
     (lit ''[/INST]'', ''Instruction marker''),
     (lit ''<<SYS>>'', ''System prompt marker''),
     (lit ''<</SYS>>'', ''System prompt marker''),
     (lit ''###'' @ [Rep Space 0 None True, Alt [lits ''Human'', lits ''Assistant'', lits ''System'']]
        @ lit '':'', ''Chat role marker''),
     (lit ''```'', ''Code block''),
     (lit ''<script'', ''Script tag''),
     (lit ''function'' @ [Rep Space 0 None True] @ lit ''('', ''JavaScript function''),
     (lit ''def'' @ [Rep Space 1 None True, Rep Word 1 None True, Rep Space 0 None True] @ lit ''('',
        ''Python function''),
     (lit ''As an AI'', ''AI self-reference''),
     (lit ''I'm an AI'', ''AI self-reference''),
     (lit ''language model'', ''AI self-reference''),
     (lit ''I cannot'', ''Refusal phrase''),
     (lit ''I'm sorry, but'', ''Apology phrase'')]"

definition PROHIBITED_PHRASES :: "(atom list \<times> string) list" where
  "PROHIBITED_PHRASES =
    [([WordB] @ lit ''cleared to take'' @ [Rep Space 0 None True] @ lit ''off'' @ [WordB],
        ''Use 'cleared for takeoff' (Tower only)''),
     ([WordB] @ lit ''taking off'' @ [WordB], ''Use 'departing' instead''),
     ([WordB] @ lit ''with you'' @ [WordB], ''Just state position, don't say 'with you'' @ [CHR 0x27]),
     ([WordB] @ lit ''back to you'' @ [WordB], ''Use proper handoff phraseology''),
     ([WordB] @ lit ''affirmative'' @ [WordB], ''Use specific readback for clearances''),
     ([WordB] @ lit ''this is '' @
        [One (In ''ABCDEFGHIJKLMNOPQRSTUVWXYZabcdefghijklmnopqrstuvwxyz'')],
        ''Don't say 'this is', start with callsign''),
     ([WordB] @ lit ''any traffic'' @ [Rep dot 1 None True] @ lit ''advise'' @ [WordB],
        ''Discouraged - use standard position reports instead'')]"

definition IFR_SCOPE_VIOLATIONS :: "(atom list \<times> string) list" where
  "IFR_SCOPE_VIOLATIONS =
    [([WordB] @ lit ''cleared'' @ [Rep dot 0 None True] @ lit ''ILS'' @ [WordB],
        ''IFR approach - out of scope''),
     ([WordB] @ lit ''cleared'' @ [Rep dot 0 None True] @ lit ''approach'' @ [WordB],
        ''IFR approach - out of scope''),
     ([WordB] @ lit ''cleared'' @ [Rep dot 0 None True] @ lit ''SID'' @ [WordB],
        ''SID - out of scope''),
     ([WordB] @ lit ''cleared'' @ [Rep dot 0 None True] @ lit ''STAR'' @ [WordB],
        ''STAR - out of scope''),
     ([WordB] @ lit ''hold as published'' @ [WordB], ''Holding pattern - out of scope''),
     ([WordB] @ lit ''expect'' @ [Rep dot 0 None True] @ lit ''vectors'' @ [WordB],
        ''IFR vectors - out of scope''),
     ([WordB] @ lit ''cleared to'' @ [Rep dot 0 None True] @ lit ''via'' @ [WordB],
        ''IFR routing - out of scope'')]"

text \<open>\<open>ATC_VALIDATION_RULES\<close>, the entries that the validator reads.\<close>

definition altitude_max :: int where "altitude_max = 60000"
definition freq_min :: rat where "freq_min = 118"
definition freq_max :: rat where "freq_max = 137"
definition squawk_max :: int where "squawk_max = 7777"

text \<open>The first loop: a suspicious pattern found in the text is recorded and every
  occurrence is cut out before the next pattern is tried.\<close>

fun check_suspicious :: "(atom list \<times> string) list \<Rightarrow> string \<Rightarrow> string list \<Rightarrow> string \<times> string list" where
  "check_suspicious [] cleaned iss = (cleaned, iss)"
| "check_suspicious ((pattern, description) # ps) cleaned iss =
     (if re_search pattern cleaned
      then check_suspicious ps (re_sub pattern [] cleaned) (iss @ [''Contains '' @ description])
      else check_suspicious ps cleaned iss)"

definition found_descriptions :: "(atom list \<times> string) list \<Rightarrow> string \<Rightarrow> string list" where
  "found_descriptions table cleaned =
     map snd (filter (\<lambda>(pattern, description). re_search pattern cleaned) table)"

definition altitude_pattern :: "atom list" where
  "altitude_pattern =
     [Rep Digit 1 (Some 6) True, Rep Space 0 None True, Alt [lits ''feet'', lits ''ft'', lits [CHR 0x27]]]"


definition fl_pattern :: "atom list" where
  "fl_pattern = lit ''FL'' @ [Rep Space 0 None True, Rep Digit 2 (Some 3) True]"

definition freq_pattern :: "atom list" where
  "freq_pattern = [Rep Digit 3 (Some 3) True, One (In ''.,''), Rep Digit 1 (Some 3) True]"

definition squawk_pattern :: "atom list" where
  "squawk_pattern = lit ''squawk'' @ [Rep Space 0 None True, Rep Digit 4 (Some 4) True]"

definition taxi_runway_pattern :: "atom list" where
  "taxi_runway_pattern =
     [WordB] @ lit ''taxi'' @ [WordB, Rep dot 0 None True, WordB] @ lit ''runway'' @ [WordB]"

definition altitude_issue :: "string \<Rightarrow> string list" where
  "altitude_issue alt_str =
     (case py_int alt_str of
        None \<Rightarrow> []
      | Some alt \<Rightarrow>
          if alt > altitude_max then [''Unrealistic altitude: '' @ py_str_int alt @ ''ft''] else [])"

definition fl_issue :: "string \<Rightarrow> string list" where
  "fl_issue fl_str =
     (case py_int fl_str of
        None \<Rightarrow> []
      | Some n \<Rightarrow>
          if n * 100 > altitude_max then [''Unrealistic flight level: FL'' @ fl_str] else [])"

definition freq_issue :: "string \<Rightarrow> string list" where
  "freq_issue freq_str =
     (case py_float (map (\<lambda>c. if c = CHR '','' then CHR ''.'' else c) freq_str) of
        None \<Rightarrow> []
      | Some freq \<Rightarrow>
          if \<not> (freq_min \<le> freq \<and> freq \<le> freq_max)
          then (if \<not> (0 \<le> freq \<and> freq \<le> 7777) then [''Invalid frequency: '' @ freq_str] else [])
          else [])"

definition squawk_issue :: "string \<Rightarrow> string list" where
  "squawk_issue squawk_str =
     (if CHR ''8'' \<in> set squawk_str \<or> CHR ''9'' \<in> set squawk_str
      then [''Invalid squawk code (contains 8 or 9): '' @ squawk_str]
      else case py_int squawk_str of
             None \<Rightarrow> []
           | Some n \<Rightarrow> if n > squawk_max then [''Invalid squawk code: '' @ squawk_str] else [])"

text \<open>The issues of the four numeric checks, in the order the source appends them.\<close>

definition numeric_issues :: "string \<Rightarrow> string list" where
  "numeric_issues cleaned =
     concat (map altitude_issue (re_findall altitude_pattern 0 1 cleaned)) @
     concat (map fl_issue (re_findall fl_pattern 3 4 cleaned)) @
     concat (map freq_issue (re_findall freq_pattern 0 3 cleaned)) @
     concat (map squawk_issue (re_findall squawk_pattern 7 8 cleaned))"

definition taxi_warning :: "string \<Rightarrow> string list" where
  "taxi_warning cleaned =
     (if re_search taxi_runway_pattern cleaned
      then (if \<not> re_search (lit ''hold short'') cleaned
            then [''Taxi instruction should include 'hold short' when crossing runways'']
            else [])
      else [])"

text \<open>The clean-up: strip, drop one pair of double quotes, then one pair of single
  quotes (\<open>cleaned[1:-1]\<close>), and collapse each run of whitespace to one blank.\<close>

definition unquote :: "char \<Rightarrow> string \<Rightarrow> string" where
  "unquote q s = (if startswith s [q] \<and> endswith s [q] then butlast (tl s) else s)"

definition clean_up :: "string \<Rightarrow> string" where
  "clean_up cleaned =
     re_sub [Rep Space 1 None True] '' '' (unquote (CHR 0x27) (unquote (CHR 0x22) (py_strip cleaned)))"

definition critical_keywords :: "string list" where
  "critical_keywords = [''LLM control'', ''System prompt'', ''Script tag'', ''Empty'', ''too short'']"

definition is_critical :: "string \<Rightarrow> bool" where
  "is_critical i = list_ex (\<lambda>kw. str_in kw i) critical_keywords"

definition validate_atc_response :: "string \<Rightarrow> ValidationResult" where
  "validate_atc_response response =
     (if response = [] then
        \<lparr>valid = False, cleaned_response = [], issues = [''Empty response''],
         original_response = [], warnings = []\<rparr>
      else
        let original = py_strip response;
            (cleaned, issues1) = check_suspicious SUSPICIOUS_PATTERNS original [];
            warnings1 = map (\<lambda>d. ''Prohibited: '' @ d) (found_descriptions PROHIBITED_PHRASES cleaned)
                      @ map (\<lambda>d. ''SCOPE: '' @ d) (found_descriptions IFR_SCOPE_VIOLATIONS cleaned);
            issues2 = issues1 @ numeric_issues cleaned;
            warnings2 = warnings1 @ taxi_warning cleaned;
            cleaned' = clean_up cleaned;
            issues3 = issues2 @ (if length cleaned' < 5 then [''Response too short''] else []);
            critical_issues = filter is_critical issues3
        in \<lparr>valid = (length critical_issues = 0),
            cleaned_response = (if cleaned' \<noteq> [] then cleaned' else ''Say again''),
            issues = issues3,
            original_response = original,
            warnings = warnings2\<rparr>)"

text \<open>\<open>get_fallback_response\<close>.\<close>

definition get_fallback_response :: string where
  "get_fallback_response = ''Stand by''"

section \<open>Transponder codes (squawk.py)\<close>

datatype SquawkType = NORMAL | VFR | STANDBY | HIJACK | NORDO | EMERGENCY

record SquawkInfo =
  code :: string
  squawk_type :: SquawkType
  description :: string
  is_emergency :: bool
  atc_response_required :: bool

record SquawkHandler =
  current_code :: string
  last_emergency :: "SquawkInfo option"
  assigned_code :: "string option"

text \<open>The handler as \<open>__init__\<close> leaves it.\<close>

definition SquawkHandler_init :: SquawkHandler where
  "SquawkHandler_init = \<lparr>current_code = ''1200'', last_emergency = None, assigned_code = None\<rparr>"

text \<open>\<open>_normalize_code\<close>: the characters 0 to 7 of the code, padded with zeros on the
  left to four characters (\<open>zfill\<close>) and cut after the fourth.\<close>

definition normalize_code :: "string \<Rightarrow> string" where
  "normalize_code c =
     (let digits = filter (\<lambda>x. x \<in> set ''01234567'') c
      in take 4 (replicate (4 - length digits) (CHR ''0'') @ digits))"

text \<open>\<open>validate_code\<close> returns the pair \<open>(is_valid, error_message)\<close>.\<close>

definition validate_code :: "string \<Rightarrow> bool \<times> string" where
  "validate_code c0 =
     (let c = py_strip c0 in
      if length c \<noteq> 4 then (False, ''Squawk must be 4 digits, got '' @ py_str_int (int (length c)))
      else if \<not> (c \<noteq> [] \<and> list_all py_isdigit c) then (False, ''Squawk must be numeric'')
      else if CHR ''8'' \<in> set c \<or> CHR ''9'' \<in> set c then (False, ''Squawk codes are octal (0-7 only)'')
      else (True, []))"

text \<open>\<open>set_assigned_code\<close> has no \<open>return\<close>: its result is Python's \<open>None\<close> on both
  branches, modelled as the unit value beside the handler it leaves.\<close>

definition set_assigned_code :: "string \<Rightarrow> SquawkHandler \<Rightarrow> unit \<times> SquawkHandler" where
  "set_assigned_code c h =
     (case validate_code c of
        (ok, error) \<Rightarrow>
          if ok then ((), h\<lparr>assigned_code := Some (normalize_code c)\<rparr>) else ((), h))"

section \<open>Flight phases (flight\_phase.py)\<close>

datatype FlightPhase =
  UNKNOWN | PARKED | TAXI_OUT | TAKEOFF | DEPARTURE | CRUISE | DESCENT | APPROACH | LANDING | TAXI_IN

text \<open>
  The speeds, vertical speeds and altitudes of the telemetry and the thresholds they are
  compared with are Python floats: a finite value (an exact rational here), one of the
  two infinities, or NaN. The comparisons are those of Python: \<open>x < y\<close> and \<open>x > y\<close> are
  false as soon as one side is NaN. The clock readings of \<open>time.time()\<close> and the
  confirmation time, which are subtracted and added, are finite and are rational numbers.
\<close>

datatype pyfloat = Fin rat | PInf | NInf | NaN

fun float_lt :: "pyfloat \<Rightarrow> pyfloat \<Rightarrow> bool" where
  "float_lt (Fin a) (Fin b) = (a < b)"
| "float_lt (Fin a) PInf = True"
| "float_lt NInf (Fin b) = True"
| "float_lt NInf PInf = True"
| "float_lt x y = False"

definition float_gt :: "pyfloat \<Rightarrow> pyfloat \<Rightarrow> bool" where
  "float_gt x y = float_lt y x"

record PhaseThresholds =
  taxi_speed_max :: pyfloat
  takeoff_speed_min :: pyfloat
  climb_vs_threshold :: pyfloat
  descent_vs_threshold :: pyfloat
  pattern_altitude_agl :: pyfloat
  departure_altitude_msl :: pyfloat
  phase_confirm_time :: rat

definition default_thresholds :: PhaseThresholds where
  "default_thresholds =
     \<lparr>taxi_speed_max = Fin 40, takeoff_speed_min = Fin 50, climb_vs_threshold = Fin 300,
      descent_vs_threshold = Fin (- 300), pattern_altitude_agl = Fin 2000,
      departure_altitude_msl = Fin 10000, phase_confirm_time = 3\<rparr>"

text \<open>The telemetry object, with the fields that the trackers read. \<open>altitude_agl\<close> is
  read with \<open>getattr\<close> and may be missing.\<close>

record Telemetry =
  connected :: bool
  on_ground :: bool
  ias :: pyfloat
  vertical_speed :: pyfloat
  altitude_msl :: pyfloat
  altitude_agl :: "pyfloat option"

record FlightPhaseTracker =
  thresholds :: PhaseThresholds
  current_phase :: FlightPhase
  pending_phase :: "FlightPhase option"
  phase_start_time :: rat
  last_update_time :: rat
  max_altitude_reached :: pyfloat
  was_airborne :: bool

definition FlightPhaseTracker_init :: "PhaseThresholds \<Rightarrow> FlightPhaseTracker" where
  "FlightPhaseTracker_init t =
     \<lparr>thresholds = t, current_phase = UNKNOWN, pending_phase = None, phase_start_time = 0,
      last_update_time = 0, max_altitude_reached = Fin 0, was_airborne = False\<rparr>"

definition detect_phase :: "FlightPhaseTracker \<Rightarrow> Telemetry \<Rightarrow> FlightPhase" where
  "detect_phase tr tel =
     (let vs = vertical_speed tel;
          alt_msl = altitude_msl tel;
          alt_agl = (case altitude_agl tel of None \<Rightarrow> alt_msl | Some a \<Rightarrow> a);
          t = thresholds tr
      in if on_ground tel then
           (if float_lt (ias tel) (Fin 10) then (if was_airborne tr then TAXI_IN else PARKED)
            else if float_lt (ias tel) (taxi_speed_max t)
            then (if was_airborne tr then TAXI_IN else TAXI_OUT)
            else (if was_airborne tr then LANDING else TAKEOFF))
         else
           (if float_gt vs (climb_vs_threshold t) then
              (if float_lt alt_msl (departure_altitude_msl t) then DEPARTURE else CRUISE)
            else if float_lt vs (descent_vs_threshold t) then
              (if float_lt alt_agl (pattern_altitude_agl t) then APPROACH else DESCENT)
            else
              (if float_lt alt_agl (pattern_altitude_agl t) then APPROACH else CRUISE)))"

definition transition_to :: "FlightPhase \<Rightarrow> FlightPhaseTracker \<Rightarrow> FlightPhaseTracker" where
  "transition_to new_phase tr =
     (let tr1 = tr\<lparr>current_phase := new_phase, pending_phase := None\<rparr>
      in if new_phase = PARKED then tr1\<lparr>max_altitude_reached := Fin 0, was_airborne := False\<rparr>
         else tr1)"

text \<open>\<open>update\<close>, with the reading of \<open>time.time()\<close> as the argument \<open>current_time\<close>; the
  telemetry may be \<open>None\<close>. The result is the returned phase and the tracker after the
  call.\<close>

definition update :: "rat \<Rightarrow> Telemetry option \<Rightarrow> FlightPhaseTracker \<Rightarrow> FlightPhase \<times> FlightPhaseTracker" where
  "update current_time telemetry tr =
     (case telemetry of
        None \<Rightarrow> (UNKNOWN, tr)
      | Some tel \<Rightarrow>
          if \<not> connected tel then (UNKNOWN, tr)
          else
            let detected_phase = detect_phase tr tel;
                tr1 = (if float_gt (altitude_msl tel) (max_altitude_reached tr)
                       then tr\<lparr>max_altitude_reached := altitude_msl tel\<rparr> else tr);
                tr2 = (if \<not> on_ground tel then tr1\<lparr>was_airborne := True\<rparr> else tr1);
                tr3 = (if detected_phase \<noteq> current_phase tr2 then
                         (if Some detected_phase = pending_phase tr2 then
                            (if current_time - phase_start_time tr2 \<ge> phase_confirm_time (thresholds tr2)
                             then transition_to detected_phase tr2 else tr2)
                          else tr2\<lparr>pending_phase := Some detected_phase,
                                   phase_start_time := current_time\<rparr>)
                       else tr2\<lparr>pending_phase := None\<rparr>);
                tr4 = tr3\<lparr>last_update_time := current_time\<rparr>
            in (current_phase tr4, tr4))"

text \<open>A sequence of calls of \<open>update\<close>, each with its clock reading: the tracker at the
  end, and the clock readings of the calls that committed a transition (the calls that
  changed the current phase; \<open>_transition_to\<close> is called only with a phase that differs
  from the current one).\<close>

fun run_updates :: "FlightPhaseTracker \<Rightarrow> (rat \<times> Telemetry option) list \<Rightarrow> FlightPhaseTracker" where
  "run_updates tr [] = tr"
| "run_updates tr ((t, tel) # evs) = run_updates (snd (update t tel tr)) evs"

fun commit_times :: "FlightPhaseTracker \<Rightarrow> (rat \<times> Telemetry option) list \<Rightarrow> rat list" where
  "commit_times tr [] = []"
| "commit_times tr ((t, tel) # evs) =
     (let tr' = snd (update t tel tr)
      in (if current_phase tr' \<noteq> current_phase tr then [t] else []) @ commit_times tr' evs)"

section \<open>Facility handoffs (handoff.py)\<close>

datatype FacilityType =
  Fac_UNKNOWN | Fac_CLEARANCE | Fac_GROUND | Fac_TOWER | Fac_DEPARTURE | Fac_APPROACH
  | Fac_CENTER | Fac_UNICOM | Fac_FLIGHT_SERVICE

record Facility =
  facility_type :: FacilityType
  facility_identifier :: string
  frequency :: string

definition to_name :: "FacilityType \<Rightarrow> string \<Rightarrow> string" where
  "to_name ft ident =
     (let name = (case ft of
                    Fac_CLEARANCE \<Rightarrow> ''Clearance'' | Fac_GROUND \<Rightarrow> ''Ground''
                  | Fac_TOWER \<Rightarrow> ''Tower'' | Fac_DEPARTURE \<Rightarrow> ''Departure''
                  | Fac_APPROACH \<Rightarrow> ''Approach'' | Fac_CENTER \<Rightarrow> ''Center''
                  | Fac_UNICOM \<Rightarrow> ''Traffic'' | Fac_FLIGHT_SERVICE \<Rightarrow> ''Radio''
                  | Fac_UNKNOWN \<Rightarrow> ''ATC'')
      in if ident \<noteq> [] then ident @ '' '' @ name else name)"

definition facility_name :: "Facility \<Rightarrow> string" where
  "facility_name f = to_name (facility_type f) (facility_identifier f)"

record HandoffManager =
  current_facility :: "Facility option"
  departure_airport :: "string option"
  arrival_airport :: "string option"
  last_handoff_altitude :: pyfloat
  handoff_history :: "(string \<times> string) list"

definition HandoffManager_init :: HandoffManager where
  "HandoffManager_init =
     \<lparr>current_facility = None, departure_airport = None, arrival_airport = None,
      last_handoff_altitude = Fin 0, handoff_history = []\<rparr>"

text \<open>\<open>self._departure_airport or ""\<close>.\<close>

definition or_empty :: "string option \<Rightarrow> string" where
  "or_empty x = (case x of None \<Rightarrow> [] | Some s \<Rightarrow> s)"

definition determine_expected_facility :: "HandoffManager \<Rightarrow> string \<Rightarrow> pyfloat \<Rightarrow> bool \<Rightarrow> Facility option" where
  "determine_expected_facility m phase altitude on_gnd =
     (let p = py_lower phase in
      if on_gnd \<and> (str_in ''parked'' p \<or> str_in ''taxi'' p) then
        Some \<lparr>facility_type = Fac_GROUND, facility_identifier = or_empty (departure_airport m),
              frequency = ''121.900''\<rparr>
      else if (str_in ''takeoff'' p \<or> str_in ''departure'' p) \<and> float_lt altitude (Fin 3000) then
        Some \<lparr>facility_type = Fac_TOWER, facility_identifier = or_empty (departure_airport m),
              frequency = ''118.300''\<rparr>
      else if (str_in ''takeoff'' p \<or> str_in ''departure'' p) \<and> float_lt altitude (Fin 10000) then
        Some \<lparr>facility_type = Fac_DEPARTURE, facility_identifier = [], frequency = ''124.000''\<rparr>
      else if str_in ''cruise'' p \<or> float_gt altitude (Fin 18000) then
        Some \<lparr>facility_type = Fac_CENTER, facility_identifier = [], frequency = ''127.750''\<rparr>
      else if str_in ''descent'' p \<or> str_in ''approach'' p then
        (if float_gt altitude (Fin 10000)
         then Some \<lparr>facility_type = Fac_CENTER, facility_identifier = [], frequency = ''127.750''\<rparr>
         else Some \<lparr>facility_type = Fac_APPROACH, facility_identifier = [], frequency = ''124.350''\<rparr>)
      else None)"

text \<open>\<open>_generate_handoff\<close> appends to the history and returns the phraseology.\<close>

definition generate_handoff :: "Facility \<Rightarrow> HandoffManager \<Rightarrow> string \<times> HandoffManager" where
  "generate_handoff to_facility m =
     (let from_name = (case current_facility m of
                         None \<Rightarrow> ''frequency'' | Some f \<Rightarrow> facility_name f)
      in (''Contact '' @ facility_name to_facility @ '' on '' @ frequency to_facility,
          m\<lparr>handoff_history := handoff_history m @ [(from_name, facility_name to_facility)]\<rparr>))"

definition handoff_update :: "Telemetry option \<Rightarrow> string \<Rightarrow> HandoffManager \<Rightarrow> string option \<times> HandoffManager" where
  "handoff_update telemetry flight_phase m =
     (case telemetry of
        None \<Rightarrow> (None, m)
      | Some tel \<Rightarrow>
          if \<not> connected tel then (None, m)
          else
            (case determine_expected_facility m flight_phase (altitude_msl tel) (on_ground tel) of
               None \<Rightarrow> (None, m)
             | Some expected \<Rightarrow>
                 if (case current_facility m of
                       None \<Rightarrow> True
                     | Some cur \<Rightarrow> facility_type expected \<noteq> facility_type cur)
                 then
                   (case generate_handoff expected m of
                      (phraseology, m1) \<Rightarrow>
                        (Some phraseology,
                         m1\<lparr>current_facility := Some expected,
                            last_handoff_altitude := altitude_msl tel\<rparr>))
                 else (None, m)))"

section \<open>Speculative response cache (response\_cache.py)\<close>

text \<open>The module has a phase enumeration of its own, with string values.\<close>

datatype CachePhase =
  C_PARKED | C_TAXI_OUT | C_HOLDING | C_TAKEOFF | C_DEPARTURE | C_CRUISE | C_DESCENT
  | C_APPROACH | C_LANDING | C_TAXI_IN


record CachedResponse =
  intent_key :: string
  prompt_template :: string
  response_text :: string
  flight_phase :: CachePhase
  context_hash :: string
  generated_at :: rat
  hit_count :: int


text \<open>The dictionary \<open>_cache\<close> keeps insertion order, which \<open>_trim_cache\<close> relies on when
  two entries have the same age: it is an association list. Assigning to a key that is
  present keeps its place; a new key goes to the end.\<close>

fun dict_set :: "'k \<Rightarrow> 'v \<Rightarrow> ('k \<times> 'v) list \<Rightarrow> ('k \<times> 'v) list" where
  "dict_set k v [] = [(k, v)]"
| "dict_set k v ((k', v') # kvs) = (if k = k' then (k, v) # kvs else (k', v') # dict_set k v kvs)"























section \<open>Streaming generation (streaming\_llm.py)\<close>

text \<open>
  What \<open>generate_stream\<close> reads is the sequence of lines of the response. A line is
  blank, or does not parse as JSON (the exception is caught and the line skipped), or
  carries a token (\<open>response\<close>, default empty) and the flag \<open>done\<close> (default false). With
  each line comes the state of the stop event when the loop reaches it. After the last
  line the connection closes or raises. The latency stamp of a chunk is a clock reading
  and is left out.
\<close>

record StreamChunk =
  chunk_text :: string
  is_final :: bool

datatype stream_line = Blank | Malformed | Json string bool

datatype stream_end = Closed | RaisesTimeout | RaisesConnectionError | RaisesOther

definition PHRASE_BOUNDARIES :: "char list" where
  "PHRASE_BOUNDARIES = ''.!?,;:'' @ [CHR 0x0A]"

definition should_emit_chunk :: "nat \<Rightarrow> nat \<Rightarrow> string \<Rightarrow> bool \<Rightarrow> bool" where
  "should_emit_chunk min_chunk_chars max_chunk_chars buffer is_done =
     (if is_done then True
      else if length buffer \<ge> max_chunk_chars then True
      else if length buffer \<ge> min_chunk_chars \<and> list_ex (\<lambda>c. c \<in> set PHRASE_BOUNDARIES) buffer then True
      else False)"

definition extract_chunk :: "string \<Rightarrow> bool \<Rightarrow> StreamChunk" where
  "extract_chunk buffer final = \<lparr>chunk_text = py_strip buffer, is_final = final\<rparr>"

fun generate_stream ::
  "nat \<Rightarrow> nat \<Rightarrow> string \<Rightarrow> (bool \<times> stream_line) list \<Rightarrow> stream_end \<Rightarrow> StreamChunk list" where
  "generate_stream mn mx buffer [] e =
     (case e of Closed \<Rightarrow> [] | _ \<Rightarrow> [\<lparr>chunk_text = [], is_final = True\<rparr>])"
| "generate_stream mn mx buffer ((stop, line) # rest) e =
     (if stop then []
      else case line of
             Blank \<Rightarrow> generate_stream mn mx buffer rest e
           | Malformed \<Rightarrow> generate_stream mn mx buffer rest e
           | Json token done \<Rightarrow>
               let emit = (token \<noteq> [] \<and> should_emit_chunk mn mx (buffer @ token) done);
                   out = (if emit then [extract_chunk (buffer @ token) done] else []);
                   buffer' = (if token \<noteq> [] then (if emit then [] else buffer @ token) else buffer)
               in out @
                  (if done
                   then (if py_strip buffer' \<noteq> [] then [\<lparr>chunk_text = py_strip buffer', is_final = True\<rparr>]
                         else [])
                   else generate_stream mn mx buffer' rest e))"

section \<open>Properties of the flight phase tracker\<close>

text \<open>A run used in the examples: the aircraft stands (two readings three seconds
  apart), then rolls at 45 knots on the ground (two readings three seconds apart).\<close>

definition tel_ground :: "pyfloat \<Rightarrow> Telemetry" where
  "tel_ground v = \<lparr>connected = True, on_ground = True, ias = v, vertical_speed = Fin 0,
                   altitude_msl = Fin 100, altitude_agl = Some (Fin 0)\<rparr>"

definition demo_events :: "(rat \<times> Telemetry option) list" where
  "demo_events = [(0, Some (tel_ground (Fin 0))), (3, Some (tel_ground (Fin 0))),
                  (4, Some (tel_ground (Fin 45))), (7, Some (tel_ground (Fin 45)))]"

definition demo_tracker :: FlightPhaseTracker where
  "demo_tracker = FlightPhaseTracker_init default_thresholds"

lemma float_lt_Fin: "\<not> float_lt (Fin v) (Fin m) \<longleftrightarrow> m \<le> v"
  by auto

lemma detect_takeoff:
  "detect_phase tr x = TAKEOFF \<Longrightarrow>
   on_ground x \<and> \<not> was_airborne tr \<and> \<not> float_lt (ias x) (Fin 10) \<and>
   \<not> float_lt (ias x) (taxi_speed_max (thresholds tr))"
  by (simp add: detect_phase_def Let_def split: if_splits option.splits)

lemma detect_landing:
  "detect_phase tr x = LANDING \<Longrightarrow>
   on_ground x \<and> was_airborne tr \<and> \<not> float_lt (ias x) (Fin 10) \<and>
   \<not> float_lt (ias x) (taxi_speed_max (thresholds tr))"
  by (simp add: detect_phase_def Let_def split: if_splits option.splits)

lemma update_thresholds: "thresholds (snd (update t tel tr)) = thresholds tr"
  by (auto simp: update_def transition_to_def Let_def split: option.splits)

lemma update_disconnected:
  "tel = None \<or> (\<exists>x. tel = Some x \<and> \<not> connected x) \<Longrightarrow> update t tel tr = (UNKNOWN, tr)"
  by (auto simp: update_def)

lemma update_commit_cases:
  assumes "current_phase (snd (update t tel tr)) \<noteq> current_phase tr"
  shows "\<exists>x. tel = Some x \<and> connected x \<and> pending_phase tr = Some (detect_phase tr x)
        \<and> detect_phase tr x \<noteq> current_phase tr
        \<and> phase_confirm_time (thresholds tr) \<le> t - phase_start_time tr
        \<and> current_phase (snd (update t tel tr)) = detect_phase tr x
        \<and> pending_phase (snd (update t tel tr)) = None"
  using assms
  by (auto simp: update_def transition_to_def Let_def split: option.splits if_splits)

lemma update_pending_start:
  assumes "pending_phase (snd (update t tel tr)) = Some p"
  shows "(pending_phase tr = Some p \<and> phase_start_time (snd (update t tel tr)) = phase_start_time tr)
       \<or> phase_start_time (snd (update t tel tr)) = t"
  using assms
  by (auto simp: update_def transition_to_def Let_def split: option.splits if_splits)

lemma step_new_pending:
  "connected x \<Longrightarrow> detect_phase tr x \<noteq> current_phase tr \<Longrightarrow> pending_phase tr \<noteq> Some (detect_phase tr x) \<Longrightarrow>
   current_phase (snd (update t (Some x) tr)) = current_phase tr \<and>
   pending_phase (snd (update t (Some x) tr)) = Some (detect_phase tr x) \<and>
   phase_start_time (snd (update t (Some x) tr)) = t"
  by (auto simp: update_def Let_def)

lemma step_waiting:
  "connected x \<Longrightarrow> detect_phase tr x \<noteq> current_phase tr \<Longrightarrow> pending_phase tr = Some (detect_phase tr x) \<Longrightarrow>
   t - phase_start_time tr < phase_confirm_time (thresholds tr) \<Longrightarrow>
   current_phase (snd (update t (Some x) tr)) = current_phase tr \<and>
   pending_phase (snd (update t (Some x) tr)) = Some (detect_phase tr x) \<and>
   phase_start_time (snd (update t (Some x) tr)) = phase_start_time tr"
  by (auto simp: update_def Let_def)

lemma step_commit:
  "connected x \<Longrightarrow> detect_phase tr x \<noteq> current_phase tr \<Longrightarrow> pending_phase tr = Some (detect_phase tr x) \<Longrightarrow>
   phase_confirm_time (thresholds tr) \<le> t - phase_start_time tr \<Longrightarrow>
   current_phase (snd (update t (Some x) tr)) = detect_phase tr x \<and>
   pending_phase (snd (update t (Some x) tr)) = None"
  by (auto simp: update_def transition_to_def Let_def)

lemma step_same:
  "connected x \<Longrightarrow> detect_phase tr x = current_phase tr \<Longrightarrow>
   current_phase (snd (update t (Some x) tr)) = current_phase tr \<and>
   pending_phase (snd (update t (Some x) tr)) = None"
  by (auto simp: update_def Let_def)


lemma commits_after:
  "sorted (map fst evs) \<Longrightarrow> (\<forall>e \<in> set evs. c \<le> fst e) \<Longrightarrow>
   (pending_phase tr \<noteq> None \<longrightarrow> c \<le> phase_start_time tr) \<Longrightarrow>
   (\<forall>x \<in> set (commit_times tr evs). c + phase_confirm_time (thresholds tr) \<le> x) \<and>
   successively (\<lambda>a b. a + phase_confirm_time (thresholds tr) \<le> b) (commit_times tr evs)"
proof (induction evs arbitrary: tr c)
  case Nil
  then show ?case by simp
next
  case (Cons e evs)
  obtain t tel where e: "e = (t, tel)" by (cases e)
  let ?tr' = "snd (update t tel tr)"
  have th: "thresholds ?tr' = thresholds tr" by (rule update_thresholds)
  have ct: "c \<le> t" using Cons.prems(2) e by simp
  have srt: "sorted (map fst evs)" and ge: "\<forall>e\<in>set evs. t \<le> fst e"
    using Cons.prems(1) e by auto
  show ?case
  proof (cases "current_phase ?tr' \<noteq> current_phase tr")
    case True
    from update_commit_cases[OF True] obtain x where
      x: "pending_phase tr = Some (detect_phase tr x)"
         "phase_confirm_time (thresholds tr) \<le> t - phase_start_time tr"
         "pending_phase ?tr' = None" by blast
    have c1: "c + phase_confirm_time (thresholds tr) \<le> t"
      using x Cons.prems(3) by auto
    have ih: "(\<forall>x \<in> set (commit_times ?tr' evs). t + phase_confirm_time (thresholds ?tr') \<le> x) \<and>
       successively (\<lambda>a b. a + phase_confirm_time (thresholds ?tr') \<le> b) (commit_times ?tr' evs)"
      by (rule Cons.IH[OF srt ge]) (simp add: x)
    have c2: "\<forall>x \<in> set (commit_times ?tr' evs). c + phase_confirm_time (thresholds tr) \<le> x"
      using ih ct th by fastforce
    show ?thesis
      using True ih c1 c2 th e
      by (cases "commit_times ?tr' evs") (auto simp: Let_def successively_Cons)
  next
    case False
    have inv: "pending_phase ?tr' \<noteq> None \<longrightarrow> c \<le> phase_start_time ?tr'"
      using update_pending_start[of t tel tr] Cons.prems(3) ct by auto
    have ge': "\<forall>e\<in>set evs. c \<le> fst e" using ge ct by auto
    have ih: "(\<forall>x \<in> set (commit_times ?tr' evs). c + phase_confirm_time (thresholds ?tr') \<le> x) \<and>
       successively (\<lambda>a b. a + phase_confirm_time (thresholds ?tr') \<le> b) (commit_times ?tr' evs)"
      by (rule Cons.IH[OF srt ge' inv])
    show ?thesis using False ih th e by (simp add: Let_def)
  qed
qed

lemma commits_spaced:
  "sorted (map fst evs) \<Longrightarrow>
   successively (\<lambda>a b. a + phase_confirm_time (thresholds tr) \<le> b) (commit_times tr evs)"
proof (induction evs arbitrary: tr)
  case Nil
  then show ?case by simp
next
  case (Cons e evs)
  obtain t tel where e: "e = (t, tel)" by (cases e)
  let ?tr' = "snd (update t tel tr)"
  have th: "thresholds ?tr' = thresholds tr" by (rule update_thresholds)
  have srt: "sorted (map fst evs)" and ge: "\<forall>e\<in>set evs. t \<le> fst e"
    using Cons.prems e by auto
  show ?case
  proof (cases "current_phase ?tr' \<noteq> current_phase tr")
    case True
    from update_commit_cases[OF True] have pn: "pending_phase ?tr' = None" by blast
    have "(\<forall>x \<in> set (commit_times ?tr' evs). t + phase_confirm_time (thresholds ?tr') \<le> x) \<and>
       successively (\<lambda>a b. a + phase_confirm_time (thresholds ?tr') \<le> b) (commit_times ?tr' evs)"
      by (rule commits_after[OF srt ge]) (simp add: pn)
    then show ?thesis
      using True th e
      by (cases "commit_times ?tr' evs") (auto simp: Let_def successively_Cons)
  next
    case False
    then show ?thesis using Cons.IH[OF srt, of ?tr'] th e by (simp add: Let_def)
  qed
qed


text \<open>
  Claim C3 (anti-flicker). With a clock that does not run backwards, any two commits of
  the current phase in a sequence of updates are at least \<open>phase_confirm_time\<close> apart.
  One update with connected telemetry does this: a detected phase that differs from the
  current one and is not the pending one becomes pending, stamped with the clock
  reading; when it is the pending one already and less than \<open>phase_confirm_time\<close> has
  passed since its stamp, nothing changes (the stamp is kept); when at least
  \<open>phase_confirm_time\<close> has passed, it is committed and the pending phase cleared; a
  detected phase equal to the current one clears the pending phase.
\<close>

theorem hysteresis_anti_flicker:
  "(sorted (map fst evs) \<longrightarrow>
      successively (\<lambda>a b. a + phase_confirm_time (thresholds tr) \<le> b) (commit_times tr evs)) \<and>
   (connected x \<longrightarrow>
      (detect_phase tr x \<noteq> current_phase tr \<and> pending_phase tr \<noteq> Some (detect_phase tr x) \<longrightarrow>
         current_phase (snd (update t (Some x) tr)) = current_phase tr \<and>
         pending_phase (snd (update t (Some x) tr)) = Some (detect_phase tr x) \<and>
         phase_start_time (snd (update t (Some x) tr)) = t) \<and>
      (detect_phase tr x \<noteq> current_phase tr \<and> pending_phase tr = Some (detect_phase tr x) \<and>
       t - phase_start_time tr < phase_confirm_time (thresholds tr) \<longrightarrow>
         current_phase (snd (update t (Some x) tr)) = current_phase tr \<and>
         pending_phase (snd (update t (Some x) tr)) = Some (detect_phase tr x) \<and>
         phase_start_time (snd (update t (Some x) tr)) = phase_start_time tr) \<and>
      (detect_phase tr x \<noteq> current_phase tr \<and> pending_phase tr = Some (detect_phase tr x) \<and>
       phase_confirm_time (thresholds tr) \<le> t - phase_start_time tr \<longrightarrow>
         current_phase (snd (update t (Some x) tr)) = detect_phase tr x \<and>
         pending_phase (snd (update t (Some x) tr)) = None) \<and>
      (detect_phase tr x = current_phase tr \<longrightarrow>
         current_phase (snd (update t (Some x) tr)) = current_phase tr \<and>
         pending_phase (snd (update t (Some x) tr)) = None))"
  using commits_spaced[of evs tr] step_new_pending[of x tr t] step_waiting[of x tr t]
    step_commit[of x tr t] step_same[of x tr t]
  by blast

theorem hysteresis_anti_flicker_witness:
  "sorted (map fst demo_events) \<and>
   commit_times demo_tracker demo_events = [3, 7] \<and>
   successively (\<lambda>a b. a + phase_confirm_time (thresholds demo_tracker) \<le> b)
     (commit_times demo_tracker demo_events) \<and>
   current_phase (snd (update 0 (Some (tel_ground (Fin 0))) demo_tracker)) = UNKNOWN \<and>
   pending_phase (snd (update 0 (Some (tel_ground (Fin 0))) demo_tracker)) = Some PARKED"
  using hysteresis_anti_flicker[of demo_events demo_tracker "tel_ground (Fin 0)" 0]
  by (simp add: demo_events_def demo_tracker_def tel_ground_def FlightPhaseTracker_init_def
      default_thresholds_def update_def detect_phase_def transition_to_def float_gt_def Let_def)

text \<open>
  Claim C7, as the code has it. When an update commits a transition into Takeoff (from
  Parked or from any other phase), the telemetry is on the ground, \<open>was_airborne\<close> was
  false before the call, and the two tests \<open>ias < 10\<close> and \<open>ias < taxi_speed_max\<close> have
  failed: when the airspeed and \<open>taxi_speed_max\<close> are finite, the airspeed is at least
  \<open>taxi_speed_max\<close>; an airspeed that is NaN fails both tests too and is taken for a
  takeoff roll. \<open>takeoff_speed_min\<close> is not read by the detection. When an update commits
  a transition into Landing, the telemetry is on the ground and \<open>was_airborne\<close> was true
  before the call.
\<close>

theorem takeoff_landing_commit:
  "current_phase (snd (update t tel tr)) \<noteq> current_phase tr \<Longrightarrow>
   (current_phase (snd (update t tel tr)) = TAKEOFF \<longrightarrow>
      (\<exists>x. tel = Some x \<and> connected x \<and> on_ground x \<and> \<not> was_airborne tr \<and>
           \<not> float_lt (ias x) (Fin 10) \<and>
           \<not> float_lt (ias x) (taxi_speed_max (thresholds tr)) \<and>
           (\<forall>v m. ias x = Fin v \<and> taxi_speed_max (thresholds tr) = Fin m \<longrightarrow> m \<le> v))) \<and>
   (current_phase (snd (update t tel tr)) = LANDING \<longrightarrow>
      (\<exists>x. tel = Some x \<and> connected x \<and> on_ground x \<and> was_airborne tr))"
proof -
  assume a: "current_phase (snd (update t tel tr)) \<noteq> current_phase tr"
  from update_commit_cases[OF a] obtain x where
    x: "tel = Some x" "connected x" "current_phase (snd (update t tel tr)) = detect_phase tr x"
    by blast
  have fin: "\<forall>v m. ias x = Fin v \<and> taxi_speed_max (thresholds tr) = Fin m \<longrightarrow> m \<le> v"
    if "\<not> float_lt (ias x) (taxi_speed_max (thresholds tr))"
    using that by (auto simp add: float_lt_Fin)
  show ?thesis
    using x detect_takeoff[of tr x] detect_landing[of tr x] fin by auto
qed

text \<open>The state of the example run before its last update, and the last update: once
  with an airspeed of 45 knots, once with an airspeed that is NaN.\<close>

definition rolling_tracker :: FlightPhaseTracker where
  "rolling_tracker = run_updates demo_tracker (take 3 demo_events)"

lemma rolling_tracker_eq:
  "rolling_tracker =
     \<lparr>thresholds = default_thresholds, current_phase = PARKED, pending_phase = Some TAKEOFF,
      phase_start_time = 4, last_update_time = 4, max_altitude_reached = Fin 100,
      was_airborne = False\<rparr>"
  by (simp add: rolling_tracker_def demo_events_def demo_tracker_def tel_ground_def
      FlightPhaseTracker_init_def default_thresholds_def update_def detect_phase_def
      transition_to_def float_gt_def Let_def)

theorem takeoff_landing_commit_witness:
  "current_phase rolling_tracker = PARKED \<and>
   current_phase (snd (update 7 (Some (tel_ground (Fin 45))) rolling_tracker)) = TAKEOFF \<and>
   \<not> was_airborne rolling_tracker \<and>
   \<not> float_lt (ias (tel_ground (Fin 45))) (taxi_speed_max (thresholds rolling_tracker)) \<and>
   current_phase (snd (update 7 (Some (tel_ground NaN)) rolling_tracker)) = TAKEOFF \<and>
   \<not> float_lt (ias (tel_ground NaN)) (taxi_speed_max (thresholds rolling_tracker))"
  using takeoff_landing_commit[of 7 "Some (tel_ground (Fin 45))" rolling_tracker]
    takeoff_landing_commit[of 7 "Some (tel_ground NaN)" rolling_tracker]
  by (simp add: rolling_tracker_eq tel_ground_def default_thresholds_def update_def
      detect_phase_def transition_to_def float_gt_def Let_def)

text \<open>The claim as stated fails: at 45 knots the tracker commits Parked to Takeoff under
  the default thresholds, where \<open>takeoff_speed_min\<close> is 50; and it commits Parked to
  Takeoff at an airspeed that is NaN, which is not at least any speed.\<close>

theorem takeoff_below_takeoff_speed_min:
  "current_phase rolling_tracker = PARKED \<and>
   current_phase (snd (update 7 (Some (tel_ground (Fin 45))) rolling_tracker)) = TAKEOFF \<and>
   float_lt (ias (tel_ground (Fin 45))) (takeoff_speed_min (thresholds rolling_tracker)) \<and>
   current_phase (snd (update 7 (Some (tel_ground NaN)) rolling_tracker)) = TAKEOFF \<and>
   \<not> float_lt (takeoff_speed_min (thresholds rolling_tracker)) (ias (tel_ground NaN)) \<and>
   ias (tel_ground NaN) \<noteq> takeoff_speed_min (thresholds rolling_tracker)"
  by (simp add: rolling_tracker_eq tel_ground_def default_thresholds_def update_def
      detect_phase_def transition_to_def float_gt_def Let_def)

text \<open>
  Claim C9. An update with absent or disconnected telemetry returns Unknown and leaves
  the tracker as it was, every field; so whatever is called next behaves as if the call
  had not been made.
\<close>

theorem disconnected_update_frame:
  "tel = None \<or> (\<exists>x. tel = Some x \<and> \<not> connected x) \<Longrightarrow>
   update t tel tr = (UNKNOWN, tr) \<and>
   update t' tel' (snd (update t tel tr)) = update t' tel' tr \<and>
   run_updates tr ((t, tel) # evs) = run_updates tr evs"
  using update_disconnected[of tel t tr] by simp

theorem disconnected_update_frame_witness:
  "update 8 (Some ((tel_ground (Fin 45))\<lparr>connected := False\<rparr>)) rolling_tracker = (UNKNOWN, rolling_tracker) \<and>
   fst (update 9 (Some (tel_ground (Fin 0)))
          (snd (update 8 (Some ((tel_ground (Fin 45))\<lparr>connected := False\<rparr>)) rolling_tracker))) = PARKED"
  using disconnected_update_frame[of "Some ((tel_ground (Fin 45))\<lparr>connected := False\<rparr>)" 8
      rolling_tracker 9 "Some (tel_ground (Fin 0))" "[]"]
  by (simp add: rolling_tracker_eq tel_ground_def default_thresholds_def update_def
      detect_phase_def transition_to_def float_gt_def Let_def)

section \<open>Properties of the transponder code handler (squawk)\<close>

lemma validate_code_iff:
  "fst (validate_code c) \<longleftrightarrow>
     (length (py_strip c) = 4 \<and> list_all py_isdigit (py_strip c) \<and>
      CHR ''8'' \<notin> set (py_strip c) \<and> CHR ''9'' \<notin> set (py_strip c))"
  by (auto simp: validate_code_def Let_def)

lemma validate_code_4591: "validate_code ''4591'' = (False, ''Squawk codes are octal (0-7 only)'')"
  by code_simp

lemma validate_code_4521: "validate_code ''4521'' = (True, [])"
  by code_simp

lemma normalize_code_4521: "normalize_code ''4521'' = ''4521''"
  by code_simp

lemma set_assigned_code_valid:
  "fst (validate_code c) \<Longrightarrow>
   snd (set_assigned_code c h) = h\<lparr>assigned_code := Some (normalize_code c)\<rparr>"
  by (cases "validate_code c") (simp add: set_assigned_code_def)

lemma set_assigned_code_invalid:
  "\<not> fst (validate_code c) \<Longrightarrow> snd (set_assigned_code c h) = h"
  by (cases "validate_code c") (simp add: set_assigned_code_def)

text \<open>
  Claim C8, as the code has it. \<open>validate_code\<close> strips surrounding whitespace first and
  then accepts exactly the codes of four characters that are all digits (in the sense of
  \<open>str.isdigit\<close>) and contain neither 8 nor 9; so 4591 is invalid and 4521 is valid.
  \<open>set_assigned_code\<close> stores the normalised code when \<open>validate_code\<close> accepts, leaves
  the handler as it was when it does not, raises nothing, and returns nothing on either
  branch (its result is the unit value).
\<close>

theorem squawk_validate_and_assign:
  "(fst (validate_code c) \<longleftrightarrow>
      (length (py_strip c) = 4 \<and> list_all py_isdigit (py_strip c) \<and>
       CHR ''8'' \<notin> set (py_strip c) \<and> CHR ''9'' \<notin> set (py_strip c))) \<and>
   validate_code ''4591'' = (False, ''Squawk codes are octal (0-7 only)'') \<and>
   validate_code ''4521'' = (True, []) \<and>
   (fst (validate_code c) \<longrightarrow>
      snd (set_assigned_code c h) = h\<lparr>assigned_code := Some (normalize_code c)\<rparr>) \<and>
   (\<not> fst (validate_code c) \<longrightarrow> snd (set_assigned_code c h) = h) \<and>
   fst (set_assigned_code c h) = ()"
  using validate_code_iff[of c] validate_code_4591 validate_code_4521
    set_assigned_code_valid[of c h] set_assigned_code_invalid[of c h]
  by simp

theorem squawk_validate_and_assign_witness:
  "snd (set_assigned_code ''4521'' SquawkHandler_init)
     = SquawkHandler_init\<lparr>assigned_code := Some ''4521''\<rparr> \<and>
   snd (set_assigned_code ''4591'' SquawkHandler_init) = SquawkHandler_init"
  using squawk_validate_and_assign[of "''4521''" SquawkHandler_init]
    squawk_validate_and_assign[of "''4591''" SquawkHandler_init]
  by (simp add: validate_code_4591 validate_code_4521 normalize_code_4521)

text \<open>The claim as stated fails twice: a code of five characters, a blank and 4521, is
  valid; and the result of \<open>set_assigned_code\<close> is the same for a rejected and for an
  accepted code, so it reports nothing.\<close>

theorem squawk_padded_code_valid:
  "fst (validate_code '' 4521'') \<and> length '' 4521'' = 5 \<and>
   fst (set_assigned_code ''4591'' SquawkHandler_init)
     = fst (set_assigned_code ''4521'' SquawkHandler_init)"
  by code_simp

section \<open>Properties of the handoff manager\<close>

lemma phase_cruise_tests:
  "py_lower ''cruise'' = ''cruise''" "\<not> str_in ''parked'' ''cruise''" "\<not> str_in ''taxi'' ''cruise''"
  "\<not> str_in ''takeoff'' ''cruise''" "\<not> str_in ''departure'' ''cruise''" "str_in ''cruise'' ''cruise''"
  by code_simp+

lemma phase_approach_tests:
  "py_lower ''approach'' = ''approach''" "\<not> str_in ''parked'' ''approach''"
  "\<not> str_in ''taxi'' ''approach''" "\<not> str_in ''takeoff'' ''approach''"
  "\<not> str_in ''departure'' ''approach''" "\<not> str_in ''cruise'' ''approach''"
  "str_in ''approach'' ''approach''"
  by code_simp+

definition center_facility :: Facility where
  "center_facility = \<lparr>facility_type = Fac_CENTER, facility_identifier = [], frequency = ''127.750''\<rparr>"

definition approach_facility :: Facility where
  "approach_facility = \<lparr>facility_type = Fac_APPROACH, facility_identifier = [], frequency = ''124.350''\<rparr>"

lemma expected_cruise_20000:
  "determine_expected_facility m ''cruise'' (Fin 20000) g = Some center_facility"
  by (simp add: determine_expected_facility_def center_facility_def phase_cruise_tests)

lemma expected_approach_8000:
  "determine_expected_facility m ''approach'' (Fin 8000) g = Some approach_facility"
  by (simp add: determine_expected_facility_def approach_facility_def phase_approach_tests
      float_gt_def)

lemma facility_names:
  "facility_name center_facility = ''Center''" "facility_name approach_facility = ''Approach''"
  by (simp_all add: facility_name_def to_name_def center_facility_def approach_facility_def)

text \<open>A telemetry reading in the air at a given altitude, for the examples.\<close>

definition tel_at :: "rat \<Rightarrow> Telemetry" where
  "tel_at alt = \<lparr>connected = True, on_ground = False, ias = Fin 120, vertical_speed = Fin 0,
                 altitude_msl = Fin alt, altitude_agl = None\<rparr>"

text \<open>
  Claim C6. With no current facility, phase "cruise" and altitude 20000 give the expected
  facility Center, and the update hands off to it. The next update, with phase "approach"
  and altitude 8000, hands off to Approach: it returns "Contact Approach on 124.350",
  appends (Center, Approach) to the history and makes Approach the current facility. A
  further update with the same phase and altitude returns nothing and changes nothing.
  This holds for any connected telemetry with these altitudes, on the ground or not.
\<close>

theorem handoff_cruise_then_approach:
  assumes "connected t1" "altitude_msl t1 = Fin 20000" "connected t2" "altitude_msl t2 = Fin 8000"
    and "current_facility m = None"
  shows "determine_expected_facility m ''cruise'' (altitude_msl t1) (on_ground t1)
           = Some center_facility \<and>
         facility_type center_facility = Fac_CENTER \<and>
         (case handoff_update (Some t1) ''cruise'' m of (r1, m1) \<Rightarrow>
            r1 = Some ''Contact Center on 127.750'' \<and>
            current_facility m1 = Some center_facility \<and>
            (case handoff_update (Some t2) ''approach'' m1 of (r2, m2) \<Rightarrow>
               r2 = Some ''Contact Approach on 124.350'' \<and>
               r2 = Some (''Contact '' @ facility_name approach_facility @ '' on ''
                          @ frequency approach_facility) \<and>
               handoff_history m2 = handoff_history m1 @ [(''Center'', ''Approach'')] \<and>
               current_facility m2 = Some approach_facility \<and>
               facility_type approach_facility = Fac_APPROACH \<and>
               handoff_update (Some t2) ''approach'' m2 = (None, m2)))"
  using assms
  by (simp add: handoff_update_def generate_handoff_def expected_cruise_20000
      expected_approach_8000 facility_names)
    (simp add: center_facility_def approach_facility_def)

theorem handoff_cruise_then_approach_witness:
  "handoff_update (Some (tel_at 20000)) ''cruise'' HandoffManager_init
     = (Some ''Contact Center on 127.750'',
        HandoffManager_init\<lparr>current_facility := Some center_facility,
          last_handoff_altitude := Fin 20000, handoff_history := [(''frequency'', ''Center'')]\<rparr>)"
  using handoff_cruise_then_approach[of "tel_at 20000" "tel_at 8000" HandoffManager_init]
  by (simp add: tel_at_def HandoffManager_init_def handoff_update_def generate_handoff_def
      expected_cruise_20000 facility_names)

section \<open>Properties of the speculative cache\<close>


lemma map_of_dict_set: "map_of (dict_set k v kvs) k = Some v"
  by (induction kvs) auto








subsection \<open>The context hashes of the entries\<close>




























section \<open>Properties of the streaming consumer\<close>

definition demo_tokens :: "string list" where
  "demo_tokens = [''Cessna'', '' 1'', '' 2'', '' 3'', '' ,'', '' taxi'', '' to'', '' runway'',
                  '' 2'', '' 8'', '' .'']"

text \<open>The tokens as lines: with the flag \<open>done\<close> on the line of the last token, and with
  the flag on a line of its own that has no token.\<close>

definition stream_done_with_last :: "(bool \<times> stream_line) list" where
  "stream_done_with_last =
     map (\<lambda>t. (False, Json t False)) (butlast demo_tokens) @ [(False, Json (last demo_tokens) True)]"

definition stream_done_alone :: "(bool \<times> stream_line) list" where
  "stream_done_alone = map (\<lambda>t. (False, Json t False)) demo_tokens @ [(False, Json [] True)]"

lemma stream_example:
  "generate_stream 5 100 [] stream_done_with_last Closed =
     [\<lparr>chunk_text = ''Cessna 1 2 3 ,'', is_final = False\<rparr>,
      \<lparr>chunk_text = ''taxi to runway 2 8 .'', is_final = True\<rparr>]"
  by code_simp

lemma residual_flushed:
  "py_strip (buffer @ token) \<noteq> [] \<Longrightarrow>
   generate_stream mn mx buffer ((False, Json token True) # rest) e
     = [\<lparr>chunk_text = py_strip (buffer @ token), is_final = True\<rparr>]"
  by (cases "token = []")
    (simp_all add: should_emit_chunk_def extract_chunk_def py_strip_def Let_def)

text \<open>
  Claim C4, as the code has it. Fed the tokens of "Cessna 1 2 3 , taxi to runway 2 8 ."
  with \<open>max_chunk_chars\<close> 100 and \<open>min_chunk_chars\<close> 5, the completion flag coming with
  the last token, the stream is one non-final chunk that ends at the comma and one final
  chunk that ends at the period, boundary characters kept. For every stream, when the
  completion line is reached and the buffer with that line's token holds a character
  that is not whitespace, the buffer is emitted, stripped, as one final chunk, whatever
  \<open>min_chunk_chars\<close> is.
\<close>

theorem stream_chunks_and_final_flush:
  "generate_stream 5 100 [] stream_done_with_last Closed =
     [\<lparr>chunk_text = ''Cessna 1 2 3 ,'', is_final = False\<rparr>,
      \<lparr>chunk_text = ''taxi to runway 2 8 .'', is_final = True\<rparr>] \<and>
   (py_strip (buffer @ token) \<noteq> [] \<longrightarrow>
      generate_stream mn mx buffer ((False, Json token True) # rest) e
        = [\<lparr>chunk_text = py_strip (buffer @ token), is_final = True\<rparr>])"
  using stream_example residual_flushed[of buffer token mn mx rest e] by blast

lemma strip_Roger: "py_strip ''Roger'' = ''Roger''"
  by code_simp

theorem stream_chunks_and_final_flush_witness:
  "generate_stream 20 100 ''Roger'' [(False, Json [] True)] Closed
     = [\<lparr>chunk_text = ''Roger'', is_final = True\<rparr>]"
  using stream_chunks_and_final_flush[of "''Roger''" "[]" 20 100 "[]" Closed]
  by (simp add: strip_Roger)

text \<open>The claim as stated fails in two ways. When the completion flag comes on a line of
  its own, the chunk that ends at the period has been emitted as non-final and no final
  chunk follows. And a buffer of whitespace left at completion is not emitted.\<close>

theorem stream_done_alone_no_final_chunk:
  "generate_stream 5 100 [] stream_done_alone Closed =
     [\<lparr>chunk_text = ''Cessna 1 2 3 ,'', is_final = False\<rparr>,
      \<lparr>chunk_text = ''taxi to runway 2 8 .'', is_final = False\<rparr>] \<and>
   generate_stream 5 100 [] [(False, Json '' '' False), (False, Json [] True)] Closed = []"
  by code_simp

section \<open>Properties of the response validator\<close>

subsection \<open>Substrings and decimal strings\<close>

lemma startswith_subset: "startswith s p \<Longrightarrow> set p \<subseteq> set s"
  by (induction s p rule: startswith.induct) auto

lemma str_in_subset: "str_in p s \<Longrightarrow> set p \<subseteq> set s"
proof (induction p s rule: str_in.induct)
  case (1 p)
  then show ?case by simp
next
  case (2 p x xs)
  from "2.prems" have "startswith (x # xs) p \<or> str_in p xs" by simp
  then show ?case
  proof
    assume "startswith (x # xs) p"
    then show ?thesis by (rule startswith_subset)
  next
    assume "str_in p xs"
    then have "set p \<subseteq> set xs" by (rule "2.IH")
    then show ?thesis by auto
  qed
qed

lemma decimal_not_letter:
  "is_decimal c \<Longrightarrow> c \<notin> {CHR ''M'', CHR ''S'', CHR ''E'', CHR ''h'', CHR ''o''}"
  by (auto simp add: is_decimal_def cp_def)

lemma py_int_decimal: "py_int s = Some n \<Longrightarrow> list_all is_decimal s"
  by (simp add: py_int_def split: if_splits)

lemma dec_digits_decimal: "0 \<le> n \<Longrightarrow> list_all is_decimal (dec_digits n)"
proof (induction n rule: dec_digits.induct)
  case (1 n)
  show ?case
  proof (cases "n < 10")
    case True
    with "1.prems" have "is_decimal (char_of (48 + n))"
      by (simp add: is_decimal_def cp_def)
    with True show ?thesis by (subst dec_digits.simps) simp
  next
    case False
    then have "0 \<le> n div 10" by simp
    with False have "list_all is_decimal (dec_digits (n div 10))" by (simp add: "1.IH")
    moreover have "is_decimal (char_of (48 + n mod 10))"
    proof -
      have "0 \<le> n mod 10" "n mod 10 < 10" by simp_all
      then have "(48 + n mod 10) mod 256 = 48 + n mod 10" by simp
      with \<open>0 \<le> n mod 10\<close> \<open>n mod 10 < 10\<close> show ?thesis
        by (simp add: is_decimal_def cp_def)
    qed
    ultimately show ?thesis using False by (subst dec_digits.simps) simp
  qed
qed

lemma py_float_chars:
  assumes "py_float s = Some f" and "c \<in> set s"
  shows "is_decimal c \<or> c = CHR ''.''"
proof -
  let ?P = "\<lambda>c. c \<noteq> CHR ''.''"
  let ?ip = "takeWhile ?P s"
  let ?fp = "drop (Suc (length ?ip)) s"
  from assms(1) obtain a b where ip: "py_int ?ip = Some a" and fp: "py_int ?fp = Some b"
    and len: "length ?ip < length s"
    by (auto simp add: py_float_def Let_def split: option.splits if_splits)
  have dw: "dropWhile ?P s \<noteq> []"
  proof
    assume "dropWhile ?P s = []"
    then have "takeWhile ?P s = s" by (metis takeWhile_dropWhile_id append_Nil2)
    with len show False by simp
  qed
  then have hd: "hd (dropWhile ?P s) = CHR ''.''" using hd_dropWhile [of ?P s] by simp
  have tl: "tl (dropWhile ?P s) = ?fp"
    by (simp add: dropWhile_eq_drop drop_Suc tl_drop)
  have "dropWhile ?P s = hd (dropWhile ?P s) # tl (dropWhile ?P s)" using dw by simp
  then have dws: "dropWhile ?P s = CHR ''.'' # ?fp" by (simp only: hd tl)
  have "set s = set ?ip \<union> set (dropWhile ?P s)"
    using set_append [of ?ip "dropWhile ?P s"] by simp
  then have "set s = set ?ip \<union> set (CHR ''.'' # ?fp)" by (simp only: dws)
  with assms(2) have "c \<in> set ?ip \<or> c = CHR ''.'' \<or> c \<in> set ?fp" by auto
  moreover from ip have "list_all is_decimal ?ip" by (rule py_int_decimal)
  moreover from fp have "list_all is_decimal ?fp" by (rule py_int_decimal)
  ultimately show ?thesis by (auto simp only: list_all_iff)
qed

subsection \<open>What a match consumed\<close>

text \<open>The text an atom consumed consists of characters of its class (for a character or
  a repetition) or is empty (for a word boundary).\<close>

fun atom_ok :: "atom \<Rightarrow> string \<Rightarrow> bool" where
  "atom_ok (One c) t = list_all (cls_has c) t"
| "atom_ok (Rep c lo hi g) t = list_all (cls_has c) t"
| "atom_ok (Alt alts) t = True"
| "atom_ok WordB t = (t = [])"

fun segs_ok :: "atom list \<Rightarrow> nat list \<Rightarrow> string \<Rightarrow> bool" where
  "segs_ok [] ls s = (ls = [])"
| "segs_ok (a # as) [] s = False"
| "segs_ok (a # as) (l # ls) s = (atom_ok a (take l s) \<and> segs_ok as ls (drop l s))"

lemma first_some_SomeD: "first_some f xs = Some y \<Longrightarrow> \<exists>x \<in> set xs. f x = Some y"
  by (induction xs) (auto split: option.splits)

lemma take_takeWhile_all:
  assumes "k \<le> length (takeWhile P s)"
  shows "list_all P (take k s)"
proof -
  have "take k s = take k (takeWhile P s @ dropWhile P s)" by simp
  also have "\<dots> = take k (takeWhile P s)" using assms by (simp del: takeWhile_dropWhile_id)
  finally have "set (take k s) \<subseteq> set (takeWhile P s)" by (simp add: set_take_subset)
  then show ?thesis by (auto simp add: list_all_iff dest: set_takeWhileD)
qed

lemma rx_match_segs: "rx_match pat prev s = Some ls \<Longrightarrow> segs_ok pat ls s"
proof (induction pat prev s arbitrary: ls rule: rx_match.induct)
  case (1 prev s)
  then show ?case by simp
next
  case (2 c as prev s)
  from "2.prems" obtain x xs ls' where s: "s = x # xs" and c: "cls_has c x"
    and m: "rx_match as (Some x) xs = Some ls'" and ls: "ls = 1 # ls'"
    by (auto split: list.splits if_splits)
  from "2.IH" [OF s c m] show ?case using s c ls by simp
next
  case (3 c lo hi greedy as prev s)
  let ?n = "length (takeWhile (cls_has c) s)"
  let ?m = "case hi of None \<Rightarrow> ?n | Some h \<Rightarrow> min ?n h"
  let ?ks = "if greedy then rev [lo..<Suc ?m] else [lo..<Suc ?m]"
  from "3.prems" have "first_some (\<lambda>k. map_option (Cons k) (rx_match as (prev_at prev s k) (drop k s))) ?ks = Some ls"
    by (simp add: Let_def)
  then obtain k where k: "k \<in> set ?ks"
    and mk: "map_option (Cons k) (rx_match as (prev_at prev s k) (drop k s)) = Some ls"
    by (blast dest: first_some_SomeD)
  from mk obtain ls' where m: "rx_match as (prev_at prev s k) (drop k s) = Some ls'"
    and ls: "ls = k # ls'" by auto
  from k have "k \<le> ?m" by (auto split: if_splits)
  then have "k \<le> ?n" by (auto split: option.splits)
  then have "list_all (cls_has c) (take k s)" by (rule take_takeWhile_all)
  moreover have "segs_ok as ls' (drop k s)" using m by (rule "3.IH" [OF refl refl refl])
  ultimately show ?case using ls by simp
next
  case (4 alts as prev s)
  from "4.prems" obtain a where "a \<in> set alts"
    and ma: "(if match_seq a s then map_option (Cons (length a)) (rx_match as (prev_at prev s (length a)) (drop (length a) s)) else None) = Some ls"
    by (auto dest!: first_some_SomeD)
  then obtain ls' where ms: "match_seq a s"
    and m: "rx_match as (prev_at prev s (length a)) (drop (length a) s) = Some ls'"
    and ls: "ls = length a # ls'"
    by (auto split: if_splits)
  from "4.IH" [OF ms m] show ?case using ls by simp
next
  case (5 as prev s)
  from "5.prems" obtain ls' where b: "is_word prev \<noteq> is_word (case s of [] \<Rightarrow> None | x # xs \<Rightarrow> Some x)"
    and m: "rx_match as prev s = Some ls'" and ls: "ls = 0 # ls'"
    by (auto split: if_splits)
  from "5.IH" [OF b m] show ?case using ls by simp
qed

lemma group_text_Suc:
  "group_text (Suc i) (Suc (Suc i)) (s, l # ls) = group_text i (Suc i) (drop l s, ls)"
  by (simp add: group_text_def add.commute)

lemma segs_ok_group:
  "segs_ok pat ls s \<Longrightarrow> i < length pat \<Longrightarrow> pat ! i = Rep c lo hi g \<Longrightarrow>
   list_all (cls_has c) (group_text i (Suc i) (s, ls))"
proof (induction pat ls s arbitrary: i rule: segs_ok.induct)
  case (1 ls s)
  then show ?case by simp
next
  case (2 a as s)
  then show ?case by simp
next
  case (3 a as l ls s)
  show ?case
  proof (cases i)
    case 0
    with "3.prems" show ?thesis by (simp add: group_text_def)
  next
    case (Suc j)
    with "3.prems" have "segs_ok as ls (drop l s)" "j < length as" "as ! j = Rep c lo hi g"
      by simp_all
    then have "list_all (cls_has c) (group_text j (Suc j) (drop l s, ls))" by (rule "3.IH")
    with Suc show ?thesis by (simp add: group_text_Suc)
  qed
qed

lemma rx_finditer_Nil:
  assumes "m \<in> set (rx_finditer pat prev [] k)"
  shows "\<exists>p. rx_match pat p (fst m) = Some (snd m)"
proof (cases "rx_match pat prev []")
  case None
  then have e: "rx_finditer pat prev [] k = []" by simp
  from assms show ?thesis unfolding e by simp
next
  case (Some ls)
  show ?thesis
  proof (cases "k = 0")
    case True
    with Some have e: "rx_finditer pat prev [] k = [([], ls)]" by simp
    from assms have "m = ([], ls)" unfolding e by simp
    with Some show ?thesis by auto
  next
    case False
    with Some have e: "rx_finditer pat prev [] k = []" by simp
    from assms show ?thesis unfolding e by simp
  qed
qed

lemma rx_finditer_match:
  "m \<in> set (rx_finditer pat prev s k) \<Longrightarrow> \<exists>p. rx_match pat p (fst m) = Some (snd m)"
proof (induct pat prev s k rule: rx_finditer.induct)
  case (1 pat prev k)
  then show ?case by (rule rx_finditer_Nil)
next
  case (2 pat prev x xs k)
  show ?case
  proof (cases "0 < k")
    case True
    with 2(4) have "m \<in> set (rx_finditer pat (Some x) xs (k - 1))" by simp
    with True show ?thesis by (rule 2(1))
  next
    case False
    show ?thesis
    proof (cases "rx_match pat prev (x # xs)")
      case None
      with False 2(4) have "m \<in> set (rx_finditer pat (Some x) xs 0)" by simp
      with False None show ?thesis by (rule 2(2))
    next
      case (Some ls)
      with False 2(4) have "m = (x # xs, ls) \<or> m \<in> set (rx_finditer pat (Some x) xs (sum_list ls - 1))"
        by simp
      then show ?thesis
      proof
        assume "m = (x # xs, ls)"
        with Some show ?thesis by auto
      next
        assume "m \<in> set (rx_finditer pat (Some x) xs (sum_list ls - 1))"
        with False Some show ?thesis by (rule 2(3))
      qed
    qed
  qed
qed

lemma re_findall_group:
  assumes "g \<in> set (re_findall pat i (Suc i) s)" and "i < length pat"
    and "pat ! i = Rep c lo hi gr"
  shows "list_all (cls_has c) g"
proof -
  from assms(1) obtain t ls where m: "(t, ls) \<in> set (rx_finditer pat None s 0)"
    and g: "g = group_text i (Suc i) (t, ls)"
    by (auto simp add: re_findall_def)
  from rx_finditer_match [OF m] obtain p where "rx_match pat p t = Some ls" by auto
  then have "segs_ok pat ls t" by (rule rx_match_segs)
  then show ?thesis unfolding g using assms(2,3) by (rule segs_ok_group)
qed

lemma squawk_pattern_group:
  "length squawk_pattern = 8 \<and> squawk_pattern ! 7 = Rep Digit 4 (Some 4) True"
  by (simp add: squawk_pattern_def lit_def)

lemma squawk_group_decimal:
  "g \<in> set (re_findall squawk_pattern 7 8 s) \<Longrightarrow> list_all is_decimal g"
  using re_findall_group [of g squawk_pattern 7 s Digit 4 "Some 4" True] squawk_pattern_group
  by (simp add: list_all_iff)

subsection \<open>Which issues are fatal\<close>

text \<open>The issues that contain one of the keywords of the final filter.\<close>

definition fatal_issues :: "string list" where
  "fatal_issues =
     [''Contains LLM control token'', ''Contains System prompt marker'', ''Contains Script tag'',
      ''Empty response'', ''Response too short'']"

lemma str_in_mem: "str_in p s \<Longrightarrow> c \<in> set p \<Longrightarrow> c \<in> set s"
  using str_in_subset [of p s] by blast

lemma not_critical_by_letters:
  assumes "CHR ''M'' \<notin> set i" and "CHR ''S'' \<notin> set i" and "CHR ''E'' \<notin> set i"
    and "CHR ''h'' \<notin> set i \<or> CHR ''o'' \<notin> set i"
  shows "\<not> is_critical i"
proof -
  have k1: "\<not> str_in ''LLM control'' i"
  proof
    assume "str_in ''LLM control'' i"
    then have "CHR ''M'' \<in> set i" by (rule str_in_mem) simp
    with assms(1) show False by simp
  qed
  have k2: "\<not> str_in ''System prompt'' i"
  proof
    assume "str_in ''System prompt'' i"
    then have "CHR ''S'' \<in> set i" by (rule str_in_mem) simp
    with assms(2) show False by simp
  qed
  have k3: "\<not> str_in ''Script tag'' i"
  proof
    assume "str_in ''Script tag'' i"
    then have "CHR ''S'' \<in> set i" by (rule str_in_mem) simp
    with assms(2) show False by simp
  qed
  have k4: "\<not> str_in ''Empty'' i"
  proof
    assume "str_in ''Empty'' i"
    then have "CHR ''E'' \<in> set i" by (rule str_in_mem) simp
    with assms(3) show False by simp
  qed
  have k5: "\<not> str_in ''too short'' i"
  proof
    assume a: "str_in ''too short'' i"
    from a have "CHR ''h'' \<in> set i" by (rule str_in_mem) simp
    moreover from a have "CHR ''o'' \<in> set i" by (rule str_in_mem) simp
    ultimately show False using assms(4) by blast
  qed
  from k1 k2 k3 k4 k5 show ?thesis
    by (simp add: is_critical_def critical_keywords_def)
qed

lemma altitude_issue_not_critical: "i \<in> set (altitude_issue a) \<Longrightarrow> \<not> is_critical i"
proof -
  assume "i \<in> set (altitude_issue a)"
  then have "\<exists>alt. i = ''Unrealistic altitude: '' @ py_str_int alt @ ''ft'' \<and> alt > altitude_max"
    by (cases "py_int a") (auto simp add: altitude_issue_def split: if_splits)
  then obtain alt where i: "i = ''Unrealistic altitude: '' @ py_str_int alt @ ''ft''"
    and alt: "alt > altitude_max"
    by blast
  from alt have "0 \<le> alt" by (simp add: altitude_max_def)
  then have "list_all is_decimal (py_str_int alt)"
    by (simp add: py_str_int_def dec_digits_decimal)
  then have "\<forall>c \<in> set (py_str_int alt). c \<notin> {CHR ''M'', CHR ''S'', CHR ''E'', CHR ''h'', CHR ''o''}"
    by (auto simp add: list_all_iff dest: decimal_not_letter)
  then show ?thesis unfolding i by (intro not_critical_by_letters) auto
qed

lemma fl_issue_not_critical: "i \<in> set (fl_issue a) \<Longrightarrow> \<not> is_critical i"
proof -
  assume "i \<in> set (fl_issue a)"
  then have "i = ''Unrealistic flight level: FL'' @ a \<and> (\<exists>n. py_int a = Some n)"
    by (cases "py_int a") (auto simp add: fl_issue_def split: if_splits)
  then obtain n where i: "i = ''Unrealistic flight level: FL'' @ a" and n: "py_int a = Some n"
    by blast
  from n have "list_all is_decimal a" by (rule py_int_decimal)
  then have "\<forall>c \<in> set a. c \<notin> {CHR ''M'', CHR ''S'', CHR ''E'', CHR ''h'', CHR ''o''}"
    by (auto simp add: list_all_iff dest: decimal_not_letter)
  then show ?thesis unfolding i by (intro not_critical_by_letters) auto
qed

lemma freq_issue_not_critical: "i \<in> set (freq_issue a) \<Longrightarrow> \<not> is_critical i"
proof -
  let ?r = "\<lambda>c. if c = CHR '','' then CHR ''.'' else c"
  assume "i \<in> set (freq_issue a)"
  then have "i = ''Invalid frequency: '' @ a \<and> (\<exists>f. py_float (map ?r a) = Some f)"
    by (cases "py_float (map ?r a)") (auto simp add: freq_issue_def split: if_splits)
  then obtain f where i: "i = ''Invalid frequency: '' @ a" and f: "py_float (map ?r a) = Some f"
    by blast
  have "\<forall>c \<in> set a. c \<notin> {CHR ''M'', CHR ''S'', CHR ''E'', CHR ''h'', CHR ''o''}"
  proof
    fix c assume "c \<in> set a"
    then have "?r c \<in> set (map ?r a)" by simp
    with f have "is_decimal (?r c) \<or> ?r c = CHR ''.''" by (rule py_float_chars)
    then show "c \<notin> {CHR ''M'', CHR ''S'', CHR ''E'', CHR ''h'', CHR ''o''}"
      by (auto dest: decimal_not_letter split: if_splits)
  qed
  then show ?thesis unfolding i by (intro not_critical_by_letters) auto
qed

lemma squawk_issue_not_critical:
  assumes "i \<in> set (squawk_issue a)" and "list_all is_decimal a"
  shows "\<not> is_critical i"
proof -
  from assms(1) have i: "i = ''Invalid squawk code (contains 8 or 9): '' @ a \<or> i = ''Invalid squawk code: '' @ a"
    by (cases "py_int a") (auto simp add: squawk_issue_def split: if_splits)
  from assms(2) have "\<forall>c \<in> set a. c \<notin> {CHR ''M'', CHR ''S'', CHR ''E'', CHR ''h'', CHR ''o''}"
    by (auto simp add: list_all_iff dest: decimal_not_letter)
  then have d: "\<And>c. c \<in> set a \<Longrightarrow> c \<notin> {CHR ''M'', CHR ''S'', CHR ''E'', CHR ''h'', CHR ''o''}"
    by blast
  from i show ?thesis
  proof
    assume "i = ''Invalid squawk code (contains 8 or 9): '' @ a"
    then show ?thesis using d by (intro not_critical_by_letters) auto
  next
    assume "i = ''Invalid squawk code: '' @ a"
    then show ?thesis using d by (intro not_critical_by_letters) auto
  qed
qed

lemma numeric_issues_not_critical:
  assumes "i \<in> set (numeric_issues cleaned)"
  shows "\<not> is_critical i"
proof -
  from assms consider
      (alt) g where "i \<in> set (altitude_issue g)"
    | (fl) g where "i \<in> set (fl_issue g)"
    | (freq) g where "i \<in> set (freq_issue g)"
    | (sq) g where "g \<in> set (re_findall squawk_pattern 7 8 cleaned)" and "i \<in> set (squawk_issue g)"
    unfolding numeric_issues_def by auto
  then show ?thesis
  proof cases
    case alt
    then show ?thesis by (rule altitude_issue_not_critical)
  next
    case fl
    then show ?thesis by (rule fl_issue_not_critical)
  next
    case freq
    then show ?thesis by (rule freq_issue_not_critical)
  next
    case sq
    from sq(2) squawk_group_decimal [OF sq(1)] show ?thesis by (rule squawk_issue_not_critical)
  qed
qed

lemma check_suspicious_issues:
  "i \<in> set (snd (check_suspicious ps c iss)) \<Longrightarrow>
   i \<in> set iss \<or> (\<exists>d \<in> set (map snd ps). i = ''Contains '' @ d)"
proof (induction ps c iss rule: check_suspicious.induct)
  case (1 cleaned iss)
  then show ?case by simp
next
  case (2 pattern description ps cleaned iss)
  then show ?case by (auto split: if_splits)
qed

lemma check_suspicious_keeps:
  "i \<in> set iss \<Longrightarrow> i \<in> set (snd (check_suspicious ps c iss))"
  by (induction ps c iss rule: check_suspicious.induct) auto

lemma suspicious_critical:
  "list_all (\<lambda>d. is_critical (''Contains '' @ d) = (''Contains '' @ d \<in> set fatal_issues))
     (map snd SUSPICIOUS_PATTERNS)"
  by code_simp

lemma fatal_critical: "list_all is_critical fatal_issues"
  by code_simp

lemma validate_nonempty:
  assumes "r \<noteq> []"
  obtains cleaned iss where
    "check_suspicious SUSPICIOUS_PATTERNS (py_strip r) [] = (cleaned, iss)"
    "issues (validate_atc_response r) =
       iss @ numeric_issues cleaned @ (if length (clean_up cleaned) < 5 then [''Response too short''] else [])"
    "valid (validate_atc_response r) = (filter is_critical (issues (validate_atc_response r)) = [])"
    "cleaned_response (validate_atc_response r) =
       (if clean_up cleaned \<noteq> [] then clean_up cleaned else ''Say again'')"
proof (cases "check_suspicious SUSPICIOUS_PATTERNS (py_strip r) []")
  case (Pair cleaned iss)
  with assms that [of cleaned iss] show ?thesis
    by (simp add: validate_atc_response_def Let_def)
qed

lemma valid_filter:
  "valid (validate_atc_response r) = (filter is_critical (issues (validate_atc_response r)) = [])"
proof (cases "r = []")
  case True
  have "is_critical ''Empty response''" by code_simp
  with True show ?thesis by (simp add: validate_atc_response_def)
next
  case False
  then show ?thesis by (rule validate_nonempty)
qed

lemma issue_critical_iff:
  assumes "i \<in> set (issues (validate_atc_response r))"
  shows "is_critical i = (i \<in> set fatal_issues)"
proof (cases "r = []")
  case True
  have "is_critical ''Empty response'' = (''Empty response'' \<in> set fatal_issues)" by code_simp
  moreover from True assms have "i = ''Empty response''" by (simp add: validate_atc_response_def)
  ultimately show ?thesis by simp
next
  case False
  then obtain cleaned iss where cs: "check_suspicious SUSPICIOUS_PATTERNS (py_strip r) [] = (cleaned, iss)"
    and iss: "issues (validate_atc_response r) =
       iss @ numeric_issues cleaned @ (if length (clean_up cleaned) < 5 then [''Response too short''] else [])"
    by (rule validate_nonempty)
  from assms iss consider "i \<in> set iss" | "i \<in> set (numeric_issues cleaned)" | "i = ''Response too short''"
    by (auto split: if_splits)
  then show ?thesis
  proof cases
    case 1
    with cs have "i \<in> set (snd (check_suspicious SUSPICIOUS_PATTERNS (py_strip r) []))" by simp
    then obtain d where "d \<in> set (map snd SUSPICIOUS_PATTERNS)" and "i = ''Contains '' @ d"
      by (auto dest!: check_suspicious_issues)
    with suspicious_critical show ?thesis by (auto simp add: list_all_iff)
  next
    case 2
    then have "\<not> is_critical i" by (rule numeric_issues_not_critical)
    moreover from this fatal_critical have "i \<notin> set fatal_issues" by (auto simp add: list_all_iff)
    ultimately show ?thesis by simp
  next
    case 3
    have "is_critical ''Response too short'' = (''Response too short'' \<in> set fatal_issues)"
      by code_simp
    with 3 show ?thesis by simp
  qed
qed

lemma control_token_recorded:
  assumes "r \<noteq> []"
    and "re_search (lit ''<|'' @ [Rep dot 0 None False] @ lit ''|>'') (py_strip r)"
  shows "''Contains LLM control token'' \<in> set (issues (validate_atc_response r))"
proof -
  from assms(1) obtain cleaned iss where cs: "check_suspicious SUSPICIOUS_PATTERNS (py_strip r) [] = (cleaned, iss)"
    and iss: "issues (validate_atc_response r) =
       iss @ numeric_issues cleaned @ (if length (clean_up cleaned) < 5 then [''Response too short''] else [])"
    by (rule validate_nonempty)
  obtain rest where sp: "SUSPICIOUS_PATTERNS =
      (lit ''<|'' @ [Rep dot 0 None False] @ lit ''|>'', ''LLM control token'') # rest"
    by (simp add: SUSPICIOUS_PATTERNS_def)
  have "''Contains LLM control token'' \<in> set (snd (check_suspicious SUSPICIOUS_PATTERNS (py_strip r) []))"
    unfolding sp using assms(2) by (simp add: check_suspicious_keeps)
  with cs iss show ?thesis by simp
qed

subsection \<open>Cutting out one literal keeps another\<close>

text \<open>A pattern of single characters matches at the start of a string when the
  characters are of its classes, one after the other; \<open>has_match\<close> says that it matches
  somewhere.\<close>

fun has_match :: "cls list \<Rightarrow> string \<Rightarrow> bool" where
  "has_match P [] = match_seq P []"
| "has_match P (x # xs) = (match_seq P (x # xs) \<or> has_match P xs)"

lemma lit_ones: "lit s = map One (lits s)"
  by (simp add: lit_def lits_def)

lemma rx_match_ones:
  "rx_match (map One Q) prev s = (if match_seq Q s then Some (replicate (length Q) 1) else None)"
proof (induction Q arbitrary: prev s)
  case Nil
  then show ?case by simp
next
  case (Cons c Q)
  show ?case
  proof (cases s)
    case Nil
    then show ?thesis by simp
  next
    case (Cons x xs)
    then show ?thesis by (simp add: Cons.IH)
  qed
qed

lemma rx_search_ones: "rx_search (map One P) prev s = has_match P s"
  by (induction s arbitrary: prev) (simp_all add: rx_match_ones)

lemma match_seq_skips:
  assumes "match_seq Q s" and "has_match (In [a] # P) s" and "\<forall>d \<in> set Q. \<not> cls_has d a"
  shows "has_match (In [a] # P) (drop (length Q) s)"
  using assms
proof (induction Q s rule: match_seq.induct)
  case (1 s)
  then show ?case by simp
next
  case (2 c cs)
  then show ?case by simp
next
  case (3 c cs x xs)
  from "3.prems"(1) have cx: "cls_has c x" and ms: "match_seq cs xs" by simp_all
  from "3.prems"(3) have "\<not> cls_has c a" by simp
  with cx have "x \<noteq> a" by auto
  with "3.prems"(2) have "has_match (In [a] # P) xs" by simp
  moreover from "3.prems"(3) have "\<forall>d \<in> set cs. \<not> cls_has d a" by simp
  ultimately have "has_match (In [a] # P) (drop (length cs) xs)" using ms by (intro "3.IH")
  then show ?case by simp
qed

lemma match_seq_copied:
  assumes "match_seq P s" and "\<forall>c \<in> set P. \<not> cls_has c b"
  shows "match_seq P (rx_sub (map One (In [b] # Q)) [] prev s 0)"
  using assms
proof (induction P s arbitrary: prev rule: match_seq.induct)
  case (1 s)
  then show ?case by simp
next
  case (2 c cs)
  then show ?case by simp
next
  case (3 c cs x xs)
  from "3.prems"(1) have cx: "cls_has c x" and ms: "match_seq cs xs" by simp_all
  from "3.prems"(2) have "\<not> cls_has c b" by simp
  with cx have "x \<noteq> b" by auto
  then have "rx_match (map One (In [b] # Q)) prev (x # xs) = None" by simp
  then have e: "rx_sub (map One (In [b] # Q)) [] prev (x # xs) 0
      = x # rx_sub (map One (In [b] # Q)) [] (Some x) xs 0" by simp
  from "3.prems"(2) have "\<forall>c \<in> set cs. \<not> cls_has c b" by simp
  with ms have "match_seq cs (rx_sub (map One (In [b] # Q)) [] (Some x) xs 0)" by (rule "3.IH")
  with cx show ?case unfolding e by simp
qed

lemma rx_sub_keeps_match:
  assumes A: "\<forall>d \<in> set (In [b] # Q). \<not> cls_has d a"
    and B: "\<forall>c \<in> set (In [a] # P). \<not> cls_has c b"
  shows "has_match (In [a] # P) (drop k s) \<Longrightarrow>
         has_match (In [a] # P) (rx_sub (map One (In [b] # Q)) [] prev s k)"
proof (induction s arbitrary: k prev)
  case Nil
  then show ?case by simp
next
  case (Cons x xs)
  let ?P = "In [a] # P" and ?Q = "In [b] # Q"
  show ?case
  proof (cases "0 < k")
    case True
    then obtain k' where k: "k = Suc k'" by (cases k) simp_all
    with Cons.prems have "has_match ?P (drop k' xs)" by simp
    then have "has_match ?P (rx_sub (map One ?Q) [] (Some x) xs k')" by (rule Cons.IH)
    with k show ?thesis by simp
  next
    case False
    then have k: "k = 0" by simp
    with Cons.prems have hm: "has_match ?P (x # xs)" by simp
    show ?thesis
    proof (cases "match_seq ?Q (x # xs)")
      case True
      then have m: "rx_match (map One ?Q) prev (x # xs) = Some (replicate (length ?Q) 1)"
        by (simp only: rx_match_ones if_True)
      have s: "sum_list (replicate (length ?Q) (1::nat)) = Suc (length Q)" by (simp add: sum_list_replicate)
      have e: "rx_sub (map One ?Q) [] prev (x # xs) 0 = rx_sub (map One ?Q) [] (Some x) xs (length Q)"
        using m s by (simp del: rx_match.simps replicate.simps)
      from True hm A have "has_match ?P (drop (length ?Q) (x # xs))" by (rule match_seq_skips)
      then have "has_match ?P (drop (length Q) xs)" by simp
      then have "has_match ?P (rx_sub (map One ?Q) [] (Some x) xs (length Q))" by (rule Cons.IH)
      with e k show ?thesis by simp
    next
      case False
      then have m: "rx_match (map One ?Q) prev (x # xs) = None"
        by (simp only: rx_match_ones if_False)
      let ?R = "rx_sub (map One ?Q) [] (Some x) xs 0"
      have e: "rx_sub (map One ?Q) [] prev (x # xs) 0 = x # ?R"
        using m by (simp del: rx_match.simps)
      from hm have "match_seq ?P (x # xs) \<or> has_match ?P xs" by simp
      then show ?thesis
      proof
        assume "match_seq ?P (x # xs)"
        then have "match_seq ?P (rx_sub (map One ?Q) [] prev (x # xs) 0)"
          using B by (rule match_seq_copied)
        then have "match_seq ?P (x # ?R)" by (simp only: e)
        then have "has_match ?P (x # ?R)" by (simp only: has_match.simps simp_thms)
        then show ?thesis by (simp only: k e)
      next
        assume "has_match ?P xs"
        then have "has_match ?P (drop 0 xs)" by simp
        then have "has_match ?P ?R" by (rule Cons.IH)
        then have "has_match ?P (x # ?R)" by (simp only: has_match.simps simp_thms)
        then show ?thesis by (simp only: k e)
      qed
    qed
  qed
qed

lemma re_sub_keeps_literal:
  assumes p: "lits p = In [a] # P" and q: "lits q = In [b] # Q"
    and A: "\<forall>d \<in> set (lits q). \<not> cls_has d a"
    and B: "\<forall>c \<in> set (lits p). \<not> cls_has c b"
    and s: "re_search (lit p) s"
  shows "re_search (lit p) (re_sub (lit q) [] s)"
proof -
  have lp: "lit p = map One (In [a] # P)" by (simp only: lit_ones p)
  have lq: "lit q = map One (In [b] # Q)" by (simp only: lit_ones q)
  from s have "has_match (In [a] # P) s" by (simp only: re_search_def lp rx_search_ones)
  then have "has_match (In [a] # P) (drop 0 s)" by simp
  moreover from A have "\<forall>d \<in> set (In [b] # Q). \<not> cls_has d a" by (simp only: q)
  moreover from B have "\<forall>c \<in> set (In [a] # P). \<not> cls_has c b" by (simp only: p)
  ultimately have "has_match (In [a] # P) (rx_sub (map One (In [b] # Q)) [] None s 0)"
    by (intro rx_sub_keeps_match)
  then show ?thesis by (simp only: re_search_def re_sub_def lp lq rx_search_ones)
qed

lemma marker_literals:
  "lits ''<<SYS>>'' = In [CHR ''<''] # tl (lits ''<<SYS>>'')"
  "lits ''<</SYS>>'' = In [CHR ''<''] # tl (lits ''<</SYS>>'')"
  "lits ''[INST]'' = In [CHR ''[''] # tl (lits ''[INST]'')"
  "lits ''[/INST]'' = In [CHR ''[''] # tl (lits ''[/INST]'')"
  "list_all (\<lambda>d. \<not> cls_has d CHR ''<'') (lits ''[INST]'')"
  "list_all (\<lambda>d. \<not> cls_has d CHR ''<'') (lits ''[/INST]'')"
  "list_all (\<lambda>c. \<not> cls_has c CHR ''['') (lits ''<<SYS>>'')"
  "list_all (\<lambda>c. \<not> cls_has c CHR ''['') (lits ''<</SYS>>'')"
  by code_simp+

lemma sys_marker_kept:
  assumes "p = ''<<SYS>>'' \<or> p = ''<</SYS>>''" and "q = ''[INST]'' \<or> q = ''[/INST]''"
    and "re_search (lit p) s"
  shows "re_search (lit p) (re_sub (lit q) [] s)"
proof -
  from assms(1) have p: "lits p = In [CHR ''<''] # tl (lits p)"
    and B: "\<forall>c \<in> set (lits p). \<not> cls_has c CHR ''[''"
    using marker_literals by (auto simp only: list_all_iff)
  from assms(2) have q: "lits q = In [CHR ''[''] # tl (lits q)"
    and A: "\<forall>d \<in> set (lits q). \<not> cls_has d CHR ''<''"
    using marker_literals by (auto simp only: list_all_iff)
  from p q A B assms(3) show ?thesis by (rule re_sub_keeps_literal)
qed

text \<open>The first five suspicious patterns. When a system prompt marker is found in the
  text, one of the two fatal issues of these patterns is recorded: the marker is still
  there when its own pattern is tried, unless a control token was cut out before.\<close>

lemma suspicious_head:
  "\<exists>rest. SUSPICIOUS_PATTERNS =
     (lit ''<|'' @ [Rep dot 0 None False] @ lit ''|>'', ''LLM control token'') #
     (lit ''[INST]'', ''Instruction marker'') #
     (lit ''[/INST]'', ''Instruction marker'') #
     (lit ''<<SYS>>'', ''System prompt marker'') #
     (lit ''<</SYS>>'', ''System prompt marker'') # rest"
  by (simp add: SUSPICIOUS_PATTERNS_def)

lemma system_marker_recorded:
  assumes "re_search (lit ''<<SYS>>'') s \<or> re_search (lit ''<</SYS>>'') s"
  shows "''Contains LLM control token'' \<in> set (snd (check_suspicious SUSPICIOUS_PATTERNS s [])) \<or>
         ''Contains System prompt marker'' \<in> set (snd (check_suspicious SUSPICIOUS_PATTERNS s []))"
proof -
  obtain rest where sp: "SUSPICIOUS_PATTERNS =
     (lit ''<|'' @ [Rep dot 0 None False] @ lit ''|>'', ''LLM control token'') #
     (lit ''[INST]'', ''Instruction marker'') #
     (lit ''[/INST]'', ''Instruction marker'') #
     (lit ''<<SYS>>'', ''System prompt marker'') #
     (lit ''<</SYS>>'', ''System prompt marker'') # rest"
    using suspicious_head by blast
  let ?p0 = "lit ''<|'' @ [Rep dot 0 None False] @ lit ''|>''"
  show ?thesis
  proof (cases "re_search ?p0 s")
    case True
    then have "''Contains LLM control token'' \<in> set (snd (check_suspicious SUSPICIOUS_PATTERNS s []))"
      unfolding sp by (simp add: check_suspicious_keeps)
    then show ?thesis by simp
  next
    case False
    define s1 where "s1 = (if re_search (lit ''[INST]'') s then re_sub (lit ''[INST]'') [] s else s)"
    define i1 where "i1 = (if re_search (lit ''[INST]'') s then [''Contains Instruction marker''] else [])"
    define s2 where "s2 = (if re_search (lit ''[/INST]'') s1 then re_sub (lit ''[/INST]'') [] s1 else s1)"
    define i2 where "i2 = (if re_search (lit ''[/INST]'') s1 then i1 @ [''Contains Instruction marker''] else i1)"
    let ?tail = "(lit ''<<SYS>>'', ''System prompt marker'') #
                 (lit ''<</SYS>>'', ''System prompt marker'') # rest"
    have cs: "check_suspicious SUSPICIOUS_PATTERNS s [] = check_suspicious ?tail s2 i2"
      unfolding sp using False by (simp add: s1_def i1_def s2_def i2_def)
    have k1: "re_search (lit p) s1" if "p = ''<<SYS>>'' \<or> p = ''<</SYS>>''" and "re_search (lit p) s" for p
      unfolding s1_def using that by (simp add: sys_marker_kept)
    have k2: "re_search (lit p) s2" if "p = ''<<SYS>>'' \<or> p = ''<</SYS>>''" and "re_search (lit p) s" for p
      unfolding s2_def using that k1 [of p] by (simp add: sys_marker_kept)
    have "''Contains System prompt marker'' \<in> set (snd (check_suspicious ?tail s2 i2))"
    proof (cases "re_search (lit ''<<SYS>>'') s2")
      case True
      then show ?thesis by (simp add: check_suspicious_keeps)
    next
      case False
      with assms k2 [of "''<<SYS>>''"] have "re_search (lit ''<</SYS>>'') s" by auto
      then have "re_search (lit ''<</SYS>>'') s2" using k2 [of "''<</SYS>>''"] by simp
      with False show ?thesis by (simp add: check_suspicious_keeps)
    qed
    then show ?thesis by (simp add: cs)
  qed
qed

subsection \<open>The validator on concrete responses\<close>

lemma validate_squawk_8521:
  "validate_atc_response ''Squawk 8521'' =
     \<lparr>valid = True, cleaned_response = ''Squawk 8521'',
      issues = [''Invalid squawk code (contains 8 or 9): 8521''],
      original_response = ''Squawk 8521'', warnings = []\<rparr>"
  by code_simp

lemma validate_radar_contact:
  "validate_atc_response ''Cessna 12345, squawk 4521, radar contact'' =
     \<lparr>valid = True, cleaned_response = ''Cessna 12345, squawk 4521, radar contact'',
      issues = [], original_response = ''Cessna 12345, squawk 4521, radar contact'',
      warnings = []\<rparr>"
  by code_simp

lemma validate_empty:
  "validate_atc_response [] =
     \<lparr>valid = False, cleaned_response = [], issues = [''Empty response''],
      original_response = [], warnings = []\<rparr>"
  by (simp add: validate_atc_response_def)

lemma validate_inst_marker:
  "validate_atc_response ''[INST] Cessna 12345, radar contact'' =
     \<lparr>valid = True, cleaned_response = ''Cessna 12345, radar contact'',
      issues = [''Contains Instruction marker''],
      original_response = ''[INST] Cessna 12345, radar contact'', warnings = []\<rparr>"
  by code_simp

lemma control_token_found:
  "re_search (lit ''<|'' @ [Rep dot 0 None False] @ lit ''|>'')
     (py_strip ''<|im_start|>Cessna 12345, radar contact'')"
  by code_simp

lemma system_marker_found:
  "re_search (lit ''<<SYS>>'') (py_strip ''<<SYS>> Cessna 12345, radar contact'')"
  by code_simp

lemma validate_chat_role_marker:
  "valid (validate_atc_response ''### Human: Cessna 12345, radar contact'') \<and>
   issues (validate_atc_response ''### Human: Cessna 12345, radar contact'') =
     [''Contains Chat role marker'']"
  by code_simp

lemma validate_code_fence:
  "valid (validate_atc_response ''``` Cessna 12345, radar contact'') \<and>
   issues (validate_atc_response ''``` Cessna 12345, radar contact'') =
     [''Contains Code block'']"
  by code_simp

lemma control_token_only_cleaned:
  "clean_up (fst (check_suspicious SUSPICIOUS_PATTERNS (py_strip ''<|im_start|>'') [])) = []"
  by code_simp

lemma invalid_squawk_substring:
  "str_in ''Invalid squawk'' ''Invalid squawk code (contains 8 or 9): 8521''"
  by code_simp

subsection \<open>Validity and the fatal issues\<close>

text \<open>
  C1. For every input, the result is valid exactly when no recorded issue is one of the
  five fatal ones: an LLM control token, a system prompt marker, a script tag, the empty
  input, a cleaned text of fewer than five characters. For every recorded issue, being
  fatal is the same as containing one of the keywords of the final filter, so every
  other issue (instruction marker, chat role marker, code block, the numeric anomalies)
  is recorded and leaves the validity alone. A non-empty input in which the control
  token pattern is found is invalid, and so is a non-empty input in which a system
  prompt marker is found (the marker is recorded, unless a control token that was cut
  out before took it along, and then the control token is recorded).
\<close>

theorem valid_iff_no_fatal_issue:
  "(valid (validate_atc_response r) \<longleftrightarrow>
      (\<forall>i \<in> set (issues (validate_atc_response r)). i \<notin> set fatal_issues)) \<and>
   (\<forall>i \<in> set (issues (validate_atc_response r)). is_critical i \<longleftrightarrow> i \<in> set fatal_issues) \<and>
   (r \<noteq> [] \<and> re_search (lit ''<|'' @ [Rep dot 0 None False] @ lit ''|>'') (py_strip r) \<longrightarrow>
      ''Contains LLM control token'' \<in> set (issues (validate_atc_response r)) \<and>
      \<not> valid (validate_atc_response r)) \<and>
   (r \<noteq> [] \<and>
    (re_search (lit ''<<SYS>>'') (py_strip r) \<or> re_search (lit ''<</SYS>>'') (py_strip r)) \<longrightarrow>
      (''Contains LLM control token'' \<in> set (issues (validate_atc_response r)) \<or>
       ''Contains System prompt marker'' \<in> set (issues (validate_atc_response r))) \<and>
      \<not> valid (validate_atc_response r))"
proof -
  let ?res = "validate_atc_response r"
  have crit: "\<forall>i \<in> set (issues ?res). is_critical i \<longleftrightarrow> i \<in> set fatal_issues"
    by (simp add: issue_critical_iff)
  have "valid ?res \<longleftrightarrow> (\<forall>i \<in> set (issues ?res). \<not> is_critical i)"
    by (simp add: valid_filter filter_empty_conv)
  with crit have iff: "valid ?res \<longleftrightarrow> (\<forall>i \<in> set (issues ?res). i \<notin> set fatal_issues)"
    by simp
  have f1: "''Contains LLM control token'' \<in> set fatal_issues"
    and f2: "''Contains System prompt marker'' \<in> set fatal_issues"
    by (simp_all add: fatal_issues_def)
  have c3: "''Contains LLM control token'' \<in> set (issues ?res) \<and> \<not> valid ?res"
    if "r \<noteq> []" and "re_search (lit ''<|'' @ [Rep dot 0 None False] @ lit ''|>'') (py_strip r)"
  proof -
    from that have m: "''Contains LLM control token'' \<in> set (issues ?res)"
      by (rule control_token_recorded)
    with f1 iff show ?thesis by blast
  qed
  have c4: "(''Contains LLM control token'' \<in> set (issues ?res) \<or>
             ''Contains System prompt marker'' \<in> set (issues ?res)) \<and> \<not> valid ?res"
    if ne: "r \<noteq> []"
      and m: "re_search (lit ''<<SYS>>'') (py_strip r) \<or> re_search (lit ''<</SYS>>'') (py_strip r)"
  proof -
    from ne obtain cleaned iss where
      cs: "check_suspicious SUSPICIOUS_PATTERNS (py_strip r) [] = (cleaned, iss)" and
      iss: "issues ?res =
        iss @ numeric_issues cleaned @ (if length (clean_up cleaned) < 5 then [''Response too short''] else [])"
      by (rule validate_nonempty)
    from m have "''Contains LLM control token'' \<in> set (snd (check_suspicious SUSPICIOUS_PATTERNS (py_strip r) [])) \<or>
         ''Contains System prompt marker'' \<in> set (snd (check_suspicious SUSPICIOUS_PATTERNS (py_strip r) []))"
      by (rule system_marker_recorded)
    with cs iss have "''Contains LLM control token'' \<in> set (issues ?res) \<or>
        ''Contains System prompt marker'' \<in> set (issues ?res)" by auto
    with f1 f2 iff show ?thesis by blast
  qed
  from iff crit c3 c4 show ?thesis by blast
qed

theorem valid_iff_no_fatal_issue_witness:
  "\<not> valid (validate_atc_response ''<|im_start|>Cessna 12345, radar contact'') \<and>
   ''Contains LLM control token'' \<in> set (issues (validate_atc_response ''<|im_start|>Cessna 12345, radar contact'')) \<and>
   \<not> valid (validate_atc_response ''<<SYS>> Cessna 12345, radar contact'')"
proof -
  have n1: "''<|im_start|>Cessna 12345, radar contact'' \<noteq> []"
    and n2: "''<<SYS>> Cessna 12345, radar contact'' \<noteq> []" by simp_all
  from valid_iff_no_fatal_issue [of "''<|im_start|>Cessna 12345, radar contact''"]
    n1 control_token_found
  have a: "''Contains LLM control token'' \<in> set (issues (validate_atc_response ''<|im_start|>Cessna 12345, radar contact'')) \<and>
      \<not> valid (validate_atc_response ''<|im_start|>Cessna 12345, radar contact'')"
    by blast
  from valid_iff_no_fatal_issue [of "''<<SYS>> Cessna 12345, radar contact''"]
    n2 system_marker_found
  have b: "\<not> valid (validate_atc_response ''<<SYS>> Cessna 12345, radar contact'')"
    by blast
  from a b show ?thesis by blast
qed

text \<open>An instruction marker, a chat role marker and a code fence are each recorded and
  cut out, and the result is valid.\<close>

theorem instruction_marker_valid:
  "valid (validate_atc_response ''[INST] Cessna 12345, radar contact'') \<and>
   issues (validate_atc_response ''[INST] Cessna 12345, radar contact'') =
     [''Contains Instruction marker''] \<and>
   valid (validate_atc_response ''### Human: Cessna 12345, radar contact'') \<and>
   issues (validate_atc_response ''### Human: Cessna 12345, radar contact'') =
     [''Contains Chat role marker''] \<and>
   valid (validate_atc_response ''``` Cessna 12345, radar contact'') \<and>
   issues (validate_atc_response ''``` Cessna 12345, radar contact'') =
     [''Contains Code block'']"
  using validate_chat_role_marker validate_code_fence by (simp add: validate_inst_marker)

text \<open>
  C5. The three responses of the tests: \<open>Squawk 8521\<close> is recorded with an issue that
  contains \<open>Invalid squawk\<close> and is valid; the empty response is invalid with the issue
  \<open>Empty response\<close>; \<open>Cessna 12345, squawk 4521, radar contact\<close> is valid and has no
  issue.
\<close>

theorem validator_test_vectors:
  "validate_atc_response ''Squawk 8521'' =
     \<lparr>valid = True, cleaned_response = ''Squawk 8521'',
      issues = [''Invalid squawk code (contains 8 or 9): 8521''],
      original_response = ''Squawk 8521'', warnings = []\<rparr> \<and>
   str_in ''Invalid squawk'' ''Invalid squawk code (contains 8 or 9): 8521'' \<and>
   validate_atc_response [] =
     \<lparr>valid = False, cleaned_response = [], issues = [''Empty response''],
      original_response = [], warnings = []\<rparr> \<and>
   validate_atc_response ''Cessna 12345, squawk 4521, radar contact'' =
     \<lparr>valid = True, cleaned_response = ''Cessna 12345, squawk 4521, radar contact'',
      issues = [], original_response = ''Cessna 12345, squawk 4521, radar contact'',
      warnings = []\<rparr>"
  by (simp only: validate_squawk_8521 validate_radar_contact validate_empty
        invalid_squawk_substring simp_thms)

theorem validator_test_vectors_witness:
  "\<not> valid (validate_atc_response []) \<and>
   issues (validate_atc_response ''Cessna 12345, squawk 4521, radar contact'') = [] \<and>
   length (issues (validate_atc_response ''Squawk 8521'')) = 1"
  using validator_test_vectors by simp

text \<open>The response \<open>Squawk 8521\<close> is valid: the squawk issue is not a fatal one.\<close>

theorem squawk_8521_valid:
  "valid (validate_atc_response ''Squawk 8521'') \<and>
   issues (validate_atc_response ''Squawk 8521'') =
     [''Invalid squawk code (contains 8 or 9): 8521'']"
  by (simp add: validate_squawk_8521)

text \<open>
  C10. For every non-empty input the cleaned response is non-empty: when cutting out the
  suspicious patterns, the quotes and the whitespace leaves nothing, the cleaned response
  is \<open>Say again\<close>, the issue \<open>Response too short\<close> is recorded and the result is
  invalid. For the empty input the cleaned response is the empty string.
\<close>

theorem cleaned_response_nonempty:
  "(response \<noteq> [] \<longrightarrow> cleaned_response (validate_atc_response response) \<noteq> []) \<and>
   (response \<noteq> [] \<and>
    clean_up (fst (check_suspicious SUSPICIOUS_PATTERNS (py_strip response) [])) = [] \<longrightarrow>
      cleaned_response (validate_atc_response response) = ''Say again'' \<and>
      ''Response too short'' \<in> set (issues (validate_atc_response response)) \<and>
      \<not> valid (validate_atc_response response)) \<and>
   (response = [] \<longrightarrow>
      cleaned_response (validate_atc_response response) = [] \<and>
      \<not> valid (validate_atc_response response))"
proof (cases "response = []")
  case True
  then show ?thesis by (simp add: validate_empty)
next
  case False
  let ?res = "validate_atc_response response"
  from False obtain cleaned iss where
    cs: "check_suspicious SUSPICIOUS_PATTERNS (py_strip response) [] = (cleaned, iss)" and
    iss: "issues ?res =
       iss @ numeric_issues cleaned @ (if length (clean_up cleaned) < 5 then [''Response too short''] else [])" and
    v: "valid ?res = (filter is_critical (issues ?res) = [])" and
    c: "cleaned_response ?res = (if clean_up cleaned \<noteq> [] then clean_up cleaned else ''Say again'')"
    by (rule validate_nonempty)
  from c have ne: "cleaned_response ?res \<noteq> []" by (cases "clean_up cleaned = []") simp_all
  have "cleaned_response ?res = ''Say again'' \<and> ''Response too short'' \<in> set (issues ?res) \<and> \<not> valid ?res"
    if e: "clean_up cleaned = []"
  proof -
    from c e have c': "cleaned_response ?res = ''Say again''" by simp
    from iss e have m: "''Response too short'' \<in> set (issues ?res)" by simp
    have "is_critical ''Response too short''" by code_simp
    with m have "filter is_critical (issues ?res) \<noteq> []" by (auto simp add: filter_empty_conv)
    with v c' m show ?thesis by simp
  qed
  with False ne cs show ?thesis by simp
qed

theorem cleaned_response_nonempty_witness:
  "cleaned_response (validate_atc_response ''<|im_start|>'') = ''Say again'' \<and>
   \<not> valid (validate_atc_response ''<|im_start|>'')"
  using cleaned_response_nonempty [of "''<|im_start|>''"] control_token_only_cleaned
  by simp

text \<open>The empty input has the empty cleaned response.\<close>

theorem empty_input_cleaned_response_empty:
  "cleaned_response (validate_atc_response []) = []"
  by (simp add: validate_atc_response_def)

end
